theory Spec2Isabelle
  imports Main "HOL-Library.List_Lexorder" "HOL-Library.Multiset"
begin

section \<open>Strings and row values\<close>

text \<open>
  A Python \<open>str\<close> is a sequence of Unicode code points and \<open>len\<close> counts code points, so a
  string is modelled as a list of code points (natural numbers).  \<open>ustr\<close> turns an ASCII
  literal into such a list.
\<close>

type_synonym ustring = "nat list"

definition ustr :: "string \<Rightarrow> ustring" where
  "ustr s = map of_char s"

text \<open>
  The values a row can hold (\<open>dict[str, any]\<close> in the source): the rows built by
  \<open>transform\<close> hold strings and booleans, and \<open>format_value\<close> tests for \<open>None\<close>.
\<close>

datatype pyval = PNone | PBool bool | PStr ustring

fun py_str :: "pyval \<Rightarrow> ustring" where
  "py_str PNone = ustr ''None''"
| "py_str (PBool b) = (if b then ustr ''True'' else ustr ''False'')"
| "py_str (PStr s) = s"

fun truthy :: "pyval \<Rightarrow> bool" where
  "truthy PNone = False"
| "truthy (PBool b) = b"
| "truthy (PStr s) = (s \<noteq> [])"

fun is_str :: "pyval \<Rightarrow> bool" where
  "is_str (PStr s) = True"
| "is_str v = False"

fun is_bool :: "pyval \<Rightarrow> bool" where
  "is_bool (PBool b) = True"
| "is_bool v = False"

fun str_of :: "pyval \<Rightarrow> ustring" where
  "str_of (PStr s) = s"
| "str_of v = []"

fun bool_of :: "pyval \<Rightarrow> bool" where
  "bool_of (PBool b) = b"
| "bool_of v = False"

type_synonym row = "ustring \<rightharpoonup> pyval"

text \<open>\<open>row.get(key, "")\<close>: the default is the empty string, not \<open>None\<close>.\<close>

definition row_get :: "row \<Rightarrow> ustring \<Rightarrow> pyval" where
  "row_get r k = (case r k of None \<Rightarrow> PStr [] | Some v \<Rightarrow> v)"

section \<open>Regular expressions of the section replacer\<close>

text \<open>
  The heading patterns are regular expressions in source form; they are modelled in parsed
  form.  \<open>Cls p\<close> is one character of a class (\<open>.\<close> under \<open>DOTALL\<close> is \<open>Cls (\<lambda>c. True)\<close>),
  \<open>Bol\<close> and \<open>Eol\<close> are \<open>^\<close> and \<open>$\<close> under \<open>MULTILINE\<close>, \<open>Eos\<close> is \<open>\Z\<close>, \<open>Star p\<close> and
  \<open>LazyStar p\<close> are \<open>c*\<close> and \<open>c*?\<close> for a character class \<open>c\<close>, \<open>Look\<close> and \<open>NLook\<close> are
  \<open>(?=...)\<close> and \<open>(?!...)\<close>.  An \<open>Alt\<close> inside an \<open>rx\<close> is a parenthesised (non-capturing)
  alternation; the alternation at the top level of a pattern string is the branch list of
  \<open>Pattern\<close>, because the source splices pattern strings textually.  Patterns with capturing
  groups of their own are outside the model.
\<close>

datatype rx =
    Cls "nat \<Rightarrow> bool"
  | Eps
  | Bol
  | Eol
  | Eos
  | Seq rx rx
  | Alt rx rx
  | Star "nat \<Rightarrow> bool"
  | LazyStar "nat \<Rightarrow> bool"
  | Look rx
  | NLook rx

datatype pattern = Pattern rx "rx list"

fun branches :: "pattern \<Rightarrow> rx list" where
  "branches (Pattern b bs) = b # bs"

text \<open>
  The exceptions of the program: the \<open>ValueError\<close> of \<open>replace_content_between\<close> (its message
  holds the \<open>repr\<close> of the start pattern, here the pattern itself), an error of the replacement
  template (\<open>re.error\<close>, or \<open>IndexError\<close> for an unknown group name), the \<open>TypeError\<close> of
  \<open>sorted\<close> on keys that cannot be compared, and the \<open>IndexError\<close> of \<open>widths[i]\<close>.
\<close>

datatype error = ValueError pattern | TemplateError | TypeError | IndexError

section \<open>Row transformer\<close>

type_synonym metadata = "ustring \<rightharpoonup> ustring list"

text \<open>
  A coverage section is a \<open>dict\<close> from resource identifier to metadata; its items are listed
  in iteration (insertion) order, and the keys of a \<open>dict\<close> are distinct.
\<close>

type_synonym section_data = "(ustring \<times> metadata) list"

fun transform_loop :: "section_data \<Rightarrow> row list \<Rightarrow> row list" where
  "transform_loop [] rows = rows"
| "transform_loop ((resource_type, metadata) # items) rows =
     (let methods = set (case metadata (ustr ''methods'') of None \<Rightarrow> [] | Some ms \<Rightarrow> ms);
          row = [ustr ''resource'' \<mapsto> PStr resource_type,
                 ustr ''create'' \<mapsto> PBool (ustr ''Create'' \<in> methods),
                 ustr ''delete'' \<mapsto> PBool (ustr ''Delete'' \<in> methods),
                 ustr ''update'' \<mapsto> PBool (ustr ''Update'' \<in> methods)]
      in transform_loop items (rows @ [row]))"

definition transform :: "section_data option \<Rightarrow> row list" where
  "transform section =
     (case section of
        None \<Rightarrow> []
      | Some items \<Rightarrow> if items = [] then [] else transform_loop items [])"

section \<open>Table renderer\<close>

record ColumnConfig =
  header :: ustring
  key :: ustring
  alignment :: ustring
  formatter :: "(pyval \<Rightarrow> ustring) option"

definition format_value :: "ColumnConfig \<Rightarrow> pyval \<Rightarrow> ustring" where
  "format_value self v =
     (case formatter self of
        Some f \<Rightarrow> f v
      | None \<Rightarrow> if v \<noteq> PNone then py_str v else ustr ''-'')"

text \<open>
  The glyph of \<open>bool_formatter\<close> is the string literal of the source file as it stands:
  the three code points U+00E2, U+0153, U+2026.
\<close>

definition check_glyph :: ustring where
  "check_glyph = [226, 339, 8230]"

definition bool_formatter :: "pyval \<Rightarrow> ustring" where
  "bool_formatter v = (if truthy v then check_glyph else ustr ''-'')"

record TableConfig =
  columns :: "ColumnConfig list"
  sort_by :: "ustring option"

definition get_headers :: "TableConfig \<Rightarrow> ustring list" where
  "get_headers self = map header (columns self)"

text \<open>The inner loop of \<open>_calculate_column_widths\<close>, for one column.\<close>

definition column_width :: "ColumnConfig \<Rightarrow> row list \<Rightarrow> nat" where
  "column_width col data =
     foldl (\<lambda>max_width r. max max_width (length (format_value col (row_get r (key col)))))
       (length (header col)) data"

definition calculate_column_widths :: "TableConfig \<Rightarrow> row list \<Rightarrow> nat list" where
  "calculate_column_widths self data = map (\<lambda>col. column_width col data) (columns self)"

definition get_alignment_separator :: "ustring \<Rightarrow> nat \<Rightarrow> ustring" where
  "get_alignment_separator align width =
     (if align = ustr ''right'' then replicate (width + 1) 45 @ ustr '':''
      else if align = ustr ''center'' then ustr '':'' @ replicate width 45 @ ustr '':''
      else replicate width 45)"

text \<open>\<open>str.rjust\<close>, \<open>str.ljust\<close> and \<open>str.center\<close> with the space as fill character.\<close>

definition rjust :: "ustring \<Rightarrow> nat \<Rightarrow> ustring" where
  "rjust s width = replicate (width - length s) 32 @ s"

definition ljust :: "ustring \<Rightarrow> nat \<Rightarrow> ustring" where
  "ljust s width = s @ replicate (width - length s) 32"

definition center :: "ustring \<Rightarrow> nat \<Rightarrow> ustring" where
  "center s width =
     (let marg = width - length s;
          left = marg div 2 + (if odd marg \<and> odd width then 1 else 0)
      in replicate left 32 @ s @ replicate (marg - left) 32)"

definition format_cell :: "ustring \<Rightarrow> nat \<Rightarrow> ustring \<Rightarrow> ustring" where
  "format_cell v width align =
     (if align = ustr ''right'' then rjust v width
      else if align = ustr ''center'' then center v width
      else ljust v width)"

fun join :: "ustring \<Rightarrow> ustring list \<Rightarrow> ustring" where
  "join sep [] = []"
| "join sep [x] = x"
| "join sep (x # y # ys) = x @ sep @ join sep (y # ys)"

text \<open>The text \<open>f"| {' | '.join(cells)} |\n"\<close> written for the header and for each data row.\<close>

definition row_text :: "ustring list \<Rightarrow> ustring" where
  "row_text cells = ustr ''| '' @ join (ustr '' | '') cells @ ustr '' |''"

definition row_line :: "ustring list \<Rightarrow> ustring" where
  "row_line cells = row_text cells @ [10]"

definition header_cells :: "TableConfig \<Rightarrow> nat list \<Rightarrow> ustring list" where
  "header_cells self widths =
     map (\<lambda>i. format_cell (get_headers self ! i) (widths ! i) (alignment (columns self ! i)))
       [0 ..< length (get_headers self)]"

text \<open>
  The writers append to the buffer they are given and return it.  \<open>widths[i]\<close> raises
  \<open>IndexError\<close> when the list of widths is shorter than the list of columns.
\<close>

definition write_header_row :: "TableConfig \<Rightarrow> ustring \<Rightarrow> nat list \<Rightarrow> error + ustring" where
  "write_header_row self writer widths =
     (if length widths < length (get_headers self) then Inl IndexError
      else Inr (writer @ row_line (header_cells self widths)))"

definition separator_cells :: "TableConfig \<Rightarrow> nat list \<Rightarrow> ustring list" where
  "separator_cells self widths =
     map (\<lambda>i. get_alignment_separator (alignment (columns self ! i)) (widths ! i))
       [0 ..< length (columns self)]"

definition separator_line :: "ustring list \<Rightarrow> ustring" where
  "separator_line separators = ustr ''|'' @ join (ustr ''|'') separators @ ustr ''|'' @ [10]"

definition write_separator_row :: "TableConfig \<Rightarrow> ustring \<Rightarrow> nat list \<Rightarrow> error + ustring" where
  "write_separator_row self writer widths =
     (if length widths < length (columns self) then Inl IndexError
      else Inr (writer @ separator_line (separator_cells self widths)))"

text \<open>
  \<open>sorted(data, key=...)\<close>: a stable ascending sort.  Strings compare by code points and
  booleans as integers; a string against a boolean, and \<open>None\<close> against anything, raise
  \<open>TypeError\<close>.  A list of at most one row is sorted without any comparison; on a longer
  list every key is compared with another one.
\<close>

definition py_sorted :: "ustring \<Rightarrow> row list \<Rightarrow> error + row list" where
  "py_sorted k data =
     (if length data \<le> 1 then Inr data
      else if \<forall>x \<in> set data. is_str (row_get x k)
        then Inr (sort_key (\<lambda>x. str_of (row_get x k)) data)
      else if \<forall>x \<in> set data. is_bool (row_get x k)
        then Inr (sort_key (\<lambda>x. bool_of (row_get x k)) data)
      else Inl TypeError)"

definition data_cells :: "TableConfig \<Rightarrow> nat list \<Rightarrow> row \<Rightarrow> ustring list" where
  "data_cells self widths r =
     map (\<lambda>i. let col = columns self ! i
              in format_cell (format_value col (row_get r (key col))) (widths ! i) (alignment col))
       [0 ..< length (columns self)]"

fun write_rows_loop :: "TableConfig \<Rightarrow> nat list \<Rightarrow> ustring \<Rightarrow> row list \<Rightarrow> error + ustring" where
  "write_rows_loop self widths writer [] = Inr writer"
| "write_rows_loop self widths writer (r # rs) =
     (if length widths < length (columns self) then Inl IndexError
      else write_rows_loop self widths (writer @ row_line (data_cells self widths r)) rs)"

text \<open>\<open>if self.config.sort_by:\<close> is false for \<open>None\<close> and for the empty string.\<close>

definition sort_active :: "TableConfig \<Rightarrow> bool" where
  "sort_active self = (case sort_by self of None \<Rightarrow> False | Some k \<Rightarrow> k \<noteq> [])"

definition write_data_rows ::
  "TableConfig \<Rightarrow> ustring \<Rightarrow> row list \<Rightarrow> nat list \<Rightarrow> error + ustring" where
  "write_data_rows self writer data widths =
     (case (if sort_active self then py_sorted (the (sort_by self)) data else Inr data) of
        Inl e \<Rightarrow> Inl e
      | Inr data' \<Rightarrow> write_rows_loop self widths writer data')"

definition rstrip_newlines :: "ustring \<Rightarrow> ustring" where
  "rstrip_newlines s = rev (dropWhile (\<lambda>c. c = 10) (rev s))"

definition generate_table :: "TableConfig \<Rightarrow> row list option \<Rightarrow> error + ustring" where
  "generate_table self data =
     (case data of
        None \<Rightarrow> Inr []
      | Some rows \<Rightarrow>
          if rows = [] then Inr []
          else
            (let widths = calculate_column_widths self rows
             in (case write_header_row self [] widths of
                   Inl e \<Rightarrow> Inl e
                 | Inr b1 \<Rightarrow>
                     (case write_separator_row self b1 widths of
                        Inl e \<Rightarrow> Inl e
                      | Inr b2 \<Rightarrow>
                          (case write_data_rows self b2 rows widths of
                             Inl e \<Rightarrow> Inl e
                           | Inr b3 \<Rightarrow> Inr (rstrip_newlines b3 @ [10]))))))"

section \<open>Section replacer\<close>

subsection \<open>Matching\<close>

text \<open>
  \<open>rx_ends r s i\<close> lists the positions at which a match of \<open>r\<close> that starts at position \<open>i\<close>
  of \<open>s\<close> can end, in the order in which a backtracking matcher tries them: the first
  alternative before the second, a greedy star from the longest run down, a lazy star from the
  empty run up.
\<close>

fun rx_ends :: "rx \<Rightarrow> ustring \<Rightarrow> nat \<Rightarrow> nat list" where
  "rx_ends (Cls p) s i = (if i < length s \<and> p (s ! i) then [Suc i] else [])"
| "rx_ends Eps s i = [i]"
| "rx_ends Bol s i = (if i = 0 \<or> (i \<le> length s \<and> s ! (i - 1) = 10) then [i] else [])"
| "rx_ends Eol s i = (if i = length s \<or> (i < length s \<and> s ! i = 10) then [i] else [])"
| "rx_ends Eos s i = (if i = length s then [i] else [])"
| "rx_ends (Seq a b) s i = concat (map (rx_ends b s) (rx_ends a s i))"
| "rx_ends (Alt a b) s i = rx_ends a s i @ rx_ends b s i"
| "rx_ends (Star p) s i = rev [i ..< Suc (i + length (takeWhile p (drop i s)))]"
| "rx_ends (LazyStar p) s i = [i ..< Suc (i + length (takeWhile p (drop i s)))]"
| "rx_ends (Look a) s i = (if rx_ends a s i = [] then [] else [i])"
| "rx_ends (NLook a) s i = (if rx_ends a s i = [] then [i] else [])"

text \<open>The class \<open>\s\<close> of a \<open>str\<close> pattern: the Unicode whitespace characters.\<close>

definition is_space :: "nat \<Rightarrow> bool" where
  "is_space c \<longleftrightarrow>
     (9 \<le> c \<and> c \<le> 13) \<or> (28 \<le> c \<and> c \<le> 32) \<or> c = 133 \<or> c = 160 \<or> c = 5760 \<or>
     (8192 \<le> c \<and> c \<le> 8202) \<or> c = 8232 \<or> c = 8233 \<or> c = 8239 \<or> c = 8287 \<or> c = 12288"

text \<open>
  The source compiles \<open>rf"(^{starting_rx}\s*\n)(.*?)(?={ending_rx})"\<close> with
  \<open>DOTALL | MULTILINE\<close>.  The start pattern is spliced into group 1 as text, so \<open>^\<close> binds to
  its first top-level branch and \<open>\s*\n\<close> to its last one; the end pattern sits inside the
  lookahead, which keeps its branches together.
\<close>

definition heading_tail :: rx where
  "heading_tail = Seq (Star is_space) (Cls (\<lambda>c. c = 10))"

fun heading_branches :: "pattern \<Rightarrow> rx list" where
  "heading_branches (Pattern b []) = [Seq Bol (Seq b heading_tail)]"
| "heading_branches (Pattern b (c # cs)) =
     Seq Bol b # butlast (c # cs) @ [Seq (last (c # cs)) heading_tail]"

text \<open>Group 1: the end positions of the heading, in backtracking order.\<close>

definition heading_ends :: "pattern \<Rightarrow> ustring \<Rightarrow> nat \<Rightarrow> nat list" where
  "heading_ends starting_rx s i = concat (map (\<lambda>b. rx_ends b s i) (heading_branches starting_rx))"

text \<open>The lookahead \<open>(?={ending_rx})\<close> at position \<open>k\<close>.\<close>

definition lookahead :: "pattern \<Rightarrow> ustring \<Rightarrow> nat \<Rightarrow> bool" where
  "lookahead ending_rx s k = (\<exists>b \<in> set (branches ending_rx). rx_ends b s k \<noteq> [])"

fun first_some :: "('a \<Rightarrow> 'b option) \<Rightarrow> 'a list \<Rightarrow> 'b option" where
  "first_some f [] = None"
| "first_some f (x # xs) = (case f x of Some y \<Rightarrow> Some y | None \<Rightarrow> first_some f xs)"

text \<open>
  Group 2 is \<open>(.*?)\<close>: from the end \<open>j\<close> of the heading it grows one character at a time,
  any character, until the lookahead holds.
\<close>

definition content_end :: "pattern \<Rightarrow> ustring \<Rightarrow> nat \<Rightarrow> nat option" where
  "content_end ending_rx s j = find (lookahead ending_rx s) [j ..< Suc (length s)]"

text \<open>
  A match is the triple of its start, the end of group 1 and its own end (the end of
  group 2, the lookahead being of width zero).
\<close>

type_synonym rmatch = "nat \<times> nat \<times> nat"

definition match_at :: "pattern \<Rightarrow> pattern \<Rightarrow> ustring \<Rightarrow> nat \<Rightarrow> rmatch option" where
  "match_at starting_rx ending_rx s i =
     first_some (\<lambda>j. map_option (\<lambda>k. (i, j, k)) (content_end ending_rx s j))
       (heading_ends starting_rx s i)"

text \<open>\<open>pattern.search\<close>: the match at the leftmost position that has one.\<close>

definition pattern_search :: "pattern \<Rightarrow> pattern \<Rightarrow> ustring \<Rightarrow> rmatch option" where
  "pattern_search starting_rx ending_rx s =
     first_some (match_at starting_rx ending_rx s) [0 ..< Suc (length s)]"

definition slice :: "ustring \<Rightarrow> nat \<Rightarrow> nat \<Rightarrow> ustring" where
  "slice s i j = take (j - i) (drop i s)"

subsection \<open>Replacement templates\<close>

text \<open>
  \<open>pattern.sub\<close> takes a string replacement as a template: a backslash starts an escape or a
  group reference.  The template is read as tokens, a token being a character or a backslash
  with the character after it; a backslash at the very end is an error.
\<close>

datatype token = Chr nat | Esc nat

fun tokenize :: "ustring \<Rightarrow> token list option" where
  "tokenize [] = Some []"
| "tokenize [c] = (if c = 92 then None else Some [Chr c])"
| "tokenize (c # d # ds) =
     (if c = 92 then map_option ((#) (Esc d)) (tokenize ds)
      else map_option ((#) (Chr c)) (tokenize (d # ds)))"

datatype piece = Literal nat | Group nat

definition is_digit :: "nat \<Rightarrow> bool" where
  "is_digit c \<longleftrightarrow> 48 \<le> c \<and> c \<le> 57"

definition is_octdigit :: "nat \<Rightarrow> bool" where
  "is_octdigit c \<longleftrightarrow> 48 \<le> c \<and> c \<le> 55"

definition is_ascii_letter :: "nat \<Rightarrow> bool" where
  "is_ascii_letter c \<longleftrightarrow> (65 \<le> c \<and> c \<le> 90) \<or> (97 \<le> c \<and> c \<le> 122)"

definition decimal :: "nat list \<Rightarrow> nat" where
  "decimal ds = foldl (\<lambda>n d. 10 * n + (d - 48)) 0 ds"

text \<open>The octal digits that follow \<open>\0\<close>: at most two; the value and the number of tokens read.\<close>

fun octal_tail :: "token list \<Rightarrow> nat \<times> nat" where
  "octal_tail (Chr d1 # Chr d2 # ts) =
     (if is_octdigit d1 \<and> is_octdigit d2 then (8 * (d1 - 48) + (d2 - 48), 2)
      else if is_octdigit d1 then (d1 - 48, 1)
      else (0, 0))"
| "octal_tail (Chr d1 # ts) = (if is_octdigit d1 then (d1 - 48, 1) else (0, 0))"
| "octal_tail ts = (0, 0)"

text \<open>
  What follows \<open>\c\<close> for a digit \<open>c\<close> from 1 to 9: three octal digits are a character, if at
  most \<open>0o377\<close>; otherwise one or two decimal digits are a group reference, and the compiled
  pattern has the two groups of the source.  The result is the piece and the number of further
  tokens read.
\<close>

fun digit_escape :: "nat \<Rightarrow> token list \<Rightarrow> (piece \<times> nat) option" where
  "digit_escape c (Chr d2 # ts) =
     (if is_digit d2 then
        (case ts of
           Chr d3 # ts' \<Rightarrow>
             if is_octdigit c \<and> is_octdigit d2 \<and> is_octdigit d3 then
               (let v = 64 * (c - 48) + 8 * (d2 - 48) + (d3 - 48)
                in if v > 255 then None else Some (Literal v, 2))
             else if 10 * (c - 48) + (d2 - 48) > 2 then None
             else Some (Group (10 * (c - 48) + (d2 - 48)), 1)
         | _ \<Rightarrow>
             if 10 * (c - 48) + (d2 - 48) > 2 then None
             else Some (Group (10 * (c - 48) + (d2 - 48)), 1))
      else if c - 48 > 2 then None else Some (Group (c - 48), 0))"
| "digit_escape c ts = (if c - 48 > 2 then None else Some (Group (c - 48), 0))"

text \<open>The escapes \<open>\a \b \f \n \r \t \v \\\<close> of a template.\<close>

definition escape_char :: "nat \<Rightarrow> nat option" where
  "escape_char c =
     (if c = 97 then Some 7 else if c = 98 then Some 8 else if c = 102 then Some 12
      else if c = 110 then Some 10 else if c = 114 then Some 13 else if c = 116 then Some 9
      else if c = 118 then Some 11 else if c = 92 then Some 92 else None)"

text \<open>
  \<open>parse_tokens name ts\<close> reads the tokens \<open>ts\<close>; \<open>name\<close> is \<open>Some\<close> of the characters
  read so far while inside \<open>\g<...>\<close>.  A group name must be a decimal number of ASCII
  digits, since the pattern has no named group.  \<open>None\<close> is an error of the template.
\<close>

fun parse_tokens :: "nat list option \<Rightarrow> token list \<Rightarrow> piece list option" where
  "parse_tokens None [] = Some []"
| "parse_tokens None (Chr c # ts) = map_option ((#) (Literal c)) (parse_tokens None ts)"
| "parse_tokens None (Esc c # ts) =
     (if c = 103 then
        (case ts of
           Chr d # ts' \<Rightarrow> if d = 60 then parse_tokens (Some []) ts' else None
         | _ \<Rightarrow> None)
      else if c = 48 then
        map_option ((#) (Literal (fst (octal_tail ts) mod 256)))
          (parse_tokens None (drop (snd (octal_tail ts)) ts))
      else if is_digit c then
        (case digit_escape c ts of
           None \<Rightarrow> None
         | Some (p, n) \<Rightarrow> map_option ((#) p) (parse_tokens None (drop n ts)))
      else
        (case escape_char c of
           Some v \<Rightarrow> map_option ((#) (Literal v)) (parse_tokens None ts)
         | None \<Rightarrow>
             if is_ascii_letter c then None
             else map_option (\<lambda>ps. Literal 92 # Literal c # ps) (parse_tokens None ts)))"
| "parse_tokens (Some name) [] = None"
| "parse_tokens (Some name) (Esc c # ts) = parse_tokens (Some (name @ [92, c])) ts"
| "parse_tokens (Some name) (Chr c # ts) =
     (if c = 62 then
        (if name \<noteq> [] \<and> list_all is_digit name \<and> decimal name \<le> 2
         then map_option ((#) (Group (decimal name))) (parse_tokens None ts)
         else None)
      else parse_tokens (Some (name @ [c])) ts)"

definition parse_template :: "ustring \<Rightarrow> piece list option" where
  "parse_template source =
     (case tokenize source of None \<Rightarrow> None | Some ts \<Rightarrow> parse_tokens None ts)"

fun expand_template :: "piece list \<Rightarrow> (nat \<Rightarrow> ustring) \<Rightarrow> ustring" where
  "expand_template [] groups = []"
| "expand_template (Literal c # ps) groups = c # expand_template ps groups"
| "expand_template (Group n # ps) groups = groups n @ expand_template ps groups"

text \<open>The groups of a match: 0 is the whole match, 1 the heading, 2 the content.\<close>

definition match_group :: "ustring \<Rightarrow> rmatch \<Rightarrow> nat \<Rightarrow> ustring" where
  "match_group s m n =
     (case m of (i, j, k) \<Rightarrow>
        if n = 0 then slice s i k else if n = 1 then slice s i j else slice s j k)"

text \<open>\<open>pattern.sub(repl, string, count=1)\<close> with a string \<open>repl\<close>.\<close>

definition pattern_sub :: "pattern \<Rightarrow> pattern \<Rightarrow> ustring \<Rightarrow> ustring \<Rightarrow> error + ustring" where
  "pattern_sub starting_rx ending_rx repl s =
     (case parse_template repl of
        None \<Rightarrow> Inl TemplateError
      | Some pieces \<Rightarrow>
          (case pattern_search starting_rx ending_rx s of
             None \<Rightarrow> Inr s
           | Some (i, j, k) \<Rightarrow>
               Inr (take i s @ expand_template pieces (match_group s (i, j, k)) @ drop k s)))"

subsection \<open>The replacer\<close>

definition replace_content_between ::
  "ustring \<Rightarrow> pattern \<Rightarrow> pattern \<Rightarrow> ustring \<Rightarrow> error + ustring" where
  "replace_content_between content starting_rx ending_rx replacement_block =
     (case pattern_search starting_rx ending_rx content of
        None \<Rightarrow> Inl (ValueError starting_rx)
      | Some m \<Rightarrow>
          (let heading = match_group content m 1;
               replacement =
                 (if replacement_block \<noteq> [] then heading @ replacement_block else heading)
           in pattern_sub starting_rx ending_rx replacement content))"

section \<open>Pipeline driver\<close>

text \<open>A literal piece of a pattern: one character class per character.\<close>

definition lit :: "string \<Rightarrow> rx" where
  "lit s = foldr (\<lambda>c r. Seq (Cls (\<lambda>x. x = of_char c)) r) s Eps"

text \<open>\<open>r"####\s*Community image"\<close>\<close>

definition COMMUNITY_HEADING_PATTERN :: pattern where
  "COMMUNITY_HEADING_PATTERN =
     Pattern (Seq (lit ''####'') (Seq (Star is_space) (lit ''Community image''))) []"

text \<open>\<open>r"\n####\s*Pro image"\<close>\<close>

definition PRO_HEADING_PATTERN :: pattern where
  "PRO_HEADING_PATTERN =
     Pattern (Seq (Cls (\<lambda>c. c = 10)) (Seq (lit ''####'') (Seq (Star is_space) (lit ''Pro image'')))) []"

text \<open>\<open>r"^\s*##\s|$\Z"\<close>\<close>

definition API_COVERAGE_HEADING_PATTERN :: pattern where
  "API_COVERAGE_HEADING_PATTERN =
     Pattern (Seq Bol (Seq (Star is_space) (Seq (lit ''##'') (Cls is_space)))) [Seq Eol Eos]"

definition table_config :: TableConfig where
  "table_config =
     \<lparr>columns =
        [\<lparr>header = ustr ''Resource'', key = ustr ''resource'', alignment = ustr ''left'',
          formatter = None\<rparr>,
         \<lparr>header = ustr ''Create'', key = ustr ''create'', alignment = ustr ''right'',
          formatter = Some bool_formatter\<rparr>,
         \<lparr>header = ustr ''Delete'', key = ustr ''delete'', alignment = ustr ''right'',
          formatter = Some bool_formatter\<rparr>,
         \<lparr>header = ustr ''Update'', key = ustr ''update'', alignment = ustr ''right'',
          formatter = Some bool_formatter\<rparr>],
      sort_by = None\<rparr>"

text \<open>
  The catalog is the parsed JSON object; \<open>cfn_catalog.get(name)\<close> is its section or \<open>None\<close>.
  A run of \<open>main\<close> is recorded as the calls it makes to the replacer, the text it writes to
  the document file, if any, and the exception it ends with, if any.
\<close>

type_synonym catalog = "ustring \<rightharpoonup> section_data"

datatype event = Replace_community | Replace_pro | Write_text ustring

definition main :: "catalog \<Rightarrow> ustring \<Rightarrow> event list \<times> error option" where
  "main cfn_catalog original_doc =
     (let community_data = transform (cfn_catalog (ustr ''community''));
          pro_data = transform (cfn_catalog (ustr ''pro''))
      in (case generate_table table_config (Some community_data) of
            Inl e \<Rightarrow> ([], Some e)
          | Inr community_table \<Rightarrow>
              (case generate_table table_config (Some pro_data) of
                 Inl e \<Rightarrow> ([], Some e)
               | Inr pro_table \<Rightarrow>
                   (case replace_content_between original_doc COMMUNITY_HEADING_PATTERN
                           PRO_HEADING_PATTERN community_table of
                      Inl e \<Rightarrow> ([Replace_community], Some e)
                    | Inr updated_doc \<Rightarrow>
                        (case replace_content_between updated_doc PRO_HEADING_PATTERN
                                API_COVERAGE_HEADING_PATTERN pro_table of
                           Inl e \<Rightarrow> ([Replace_community, Replace_pro], Some e)
                         | Inr updated_doc' \<Rightarrow>
                             if updated_doc' \<noteq> original_doc
                             then ([Replace_community, Replace_pro, Write_text updated_doc'], None)
                             else ([Replace_community, Replace_pro], None))))))"

section \<open>Notions used in the statements\<close>

text \<open>The operation set of a resource: \<open>set(metadata.get("methods", []))\<close>.\<close>

definition methods_of :: "metadata \<Rightarrow> ustring set" where
  "methods_of md = set (case md (ustr ''methods'') of None \<Rightarrow> [] | Some ms \<Rightarrow> ms)"

text \<open>The row that \<open>transform\<close> builds for one item of a section.\<close>

definition coverage_row :: "ustring \<times> metadata \<Rightarrow> row" where
  "coverage_row item =
     [ustr ''resource'' \<mapsto> PStr (fst item),
      ustr ''create'' \<mapsto> PBool (ustr ''Create'' \<in> methods_of (snd item)),
      ustr ''delete'' \<mapsto> PBool (ustr ''Delete'' \<in> methods_of (snd item)),
      ustr ''update'' \<mapsto> PBool (ustr ''Update'' \<in> methods_of (snd item))]"

text \<open>The example section of the specification.\<close>

definition example_section :: section_data where
  "example_section =
     [(ustr ''AWS::S3::Bucket'', [ustr ''methods'' \<mapsto> [ustr ''Create'', ustr ''Delete'']])]"

text \<open>The text of a cell before padding: the formatted value of the row at the column's key.\<close>

definition cell_text :: "ColumnConfig \<Rightarrow> row \<Rightarrow> ustring" where
  "cell_text col r = format_value col (row_get r (key col))"

text \<open>The text of a table: the header line, the separator line and one line per row.\<close>

definition table_text :: "TableConfig \<Rightarrow> nat list \<Rightarrow> row list \<Rightarrow> ustring" where
  "table_text self widths rows =
     row_line (header_cells self widths) @ separator_line (separator_cells self widths) @
     concat (map (\<lambda>r. row_line (data_cells self widths r)) rows)"

text \<open>The rows in the order in which they are written.\<close>

definition ordered_rows :: "TableConfig \<Rightarrow> row list \<Rightarrow> error + row list" where
  "ordered_rows self data =
     (if sort_active self then py_sorted (the (sort_by self)) data else Inr data)"

text \<open>The first two columns of the pipeline, a table without columns, and the rows of the example.\<close>

definition resource_column :: ColumnConfig where
  "resource_column = \<lparr>header = ustr ''Resource'', key = ustr ''resource'', alignment = ustr ''left'',
                        formatter = None\<rparr>"

definition create_column :: ColumnConfig where
  "create_column = \<lparr>header = ustr ''Create'', key = ustr ''create'', alignment = ustr ''right'',
                      formatter = Some bool_formatter\<rparr>"

definition no_columns :: TableConfig where
  "no_columns = \<lparr>columns = [], sort_by = None\<rparr>"

definition example_rows :: "row list" where
  "example_rows = transform (Some example_section)"

text \<open>A section whose keys are not in alphabetical order.\<close>

definition unsorted_section :: section_data where
  "unsorted_section =
     [(ustr ''B'', [ustr ''methods'' \<mapsto> [ustr ''Update'']]), (ustr ''A'', Map.empty)]"

text \<open>A pattern matches somewhere in a text: at some position one of its branches has a match.\<close>

definition matches_in :: "pattern \<Rightarrow> ustring \<Rightarrow> bool" where
  "matches_in p s = (\<exists>i \<in> set [0 ..< Suc (length s)]. lookahead p s i)"

text \<open>
  Example patterns and documents: the patterns \<open>A\<close> and \<open>B\<close>, the example of the
  specification (\<open>^### A\<close>, \<open>^### B\<close>), and a start pattern \<open>A\\n\<close> that matches a backslash.
\<close>

definition pat_A :: pattern where "pat_A = Pattern (lit ''A'') []"
definition pat_B :: pattern where "pat_B = Pattern (lit ''B'') []"
definition heading_A :: pattern where "heading_A = Pattern (Seq Bol (lit ''### A'')) []"
definition heading_B :: pattern where "heading_B = Pattern (Seq Bol (lit ''### B'')) []"
definition spec_doc :: ustring where
  "spec_doc = ustr ''### A'' @ [10] @ ustr ''old'' @ [10] @ ustr ''### B'' @ [10]"
definition spec_block :: ustring where "spec_block = ustr ''new'' @ [10]"
definition spec_result :: ustring where
  "spec_result = ustr ''### A'' @ [10] @ ustr ''new'' @ [10] @ ustr ''### B'' @ [10]"
definition doc_no_end :: ustring where "doc_no_end = ustr ''A'' @ [10] @ ustr ''x'' @ [10]"
definition doc_mid_line :: ustring where "doc_mid_line = ustr ''xA'' @ [10] @ ustr ''y'' @ [10] @ ustr ''B''"
definition pat_backslash :: pattern where
  "pat_backslash = Pattern (Seq (Cls (\<lambda>c. c = 65)) (Seq (Cls (\<lambda>c. c = 92)) (Cls (\<lambda>c. c = 110)))) []"
definition doc_backslash :: ustring where
  "doc_backslash = [65, 92, 110, 10] @ ustr ''old'' @ [10] @ ustr ''B''"
definition doc_plain :: ustring where "doc_plain = ustr ''no headings'' @ [10]"

text \<open>The table that the pipeline renders for the rows of a section.\<close>

definition pipeline_table :: "row list \<Rightarrow> ustring" where
  "pipeline_table rows =
     (if rows = [] then []
      else table_text table_config (calculate_column_widths table_config rows) rows)"

text \<open>No character class of an expression, lookarounds apart, accepts the character \<open>c\<close>.\<close>

fun rx_avoids :: "nat \<Rightarrow> rx \<Rightarrow> bool" where
  "rx_avoids c (Cls p) = (\<not> p c)"
| "rx_avoids c (Seq a b) = (rx_avoids c a \<and> rx_avoids c b)"
| "rx_avoids c (Alt a b) = (rx_avoids c a \<and> rx_avoids c b)"
| "rx_avoids c (Star p) = (\<not> p c)"
| "rx_avoids c (LazyStar p) = (\<not> p c)"
| "rx_avoids c r = True"




section \<open>Row transformer: properties\<close>

lemma transform_loop_append: "transform_loop items rows = rows @ map coverage_row items"
  by (induction items arbitrary: rows) (auto simp: coverage_row_def methods_of_def Let_def)

lemma transform_Some: "transform (Some items) = map coverage_row items"
  by (simp add: transform_def transform_loop_append)

lemma coverage_row_fields:
  "coverage_row (k, md) (ustr ''resource'') = Some (PStr k)"
  "coverage_row (k, md) (ustr ''create'') = Some (PBool (ustr ''Create'' \<in> methods_of md))"
  "coverage_row (k, md) (ustr ''delete'') = Some (PBool (ustr ''Delete'' \<in> methods_of md))"
  "coverage_row (k, md) (ustr ''update'') = Some (PBool (ustr ''Update'' \<in> methods_of md))"
  by (simp_all add: coverage_row_def ustr_def)

lemma distinct_key_count:
  "distinct (map fst items) \<Longrightarrow> k \<in> fst ` set items \<Longrightarrow>
   length (filter (\<lambda>item. fst item = k) items) = 1"
proof (induction items)
  case Nil
  then show ?case by simp
next
  case (Cons a items)
  show ?case
  proof (cases "fst a = k")
    case True
    with Cons.prems have "k \<notin> fst ` set items" by auto
    then have "filter (\<lambda>item. fst item = k) items = []"
      by (auto simp: filter_empty_conv)
    with True show ?thesis by simp
  next
    case False
    with Cons show ?thesis by auto
  qed
qed

text \<open>
  Claim C1.  \<open>transform\<close> returns the empty list for an absent and for an empty section.
  For a section whose keys are distinct, as the keys of a \<open>dict\<close> are, it returns one row per
  item: as many rows as items, exactly one row for each resource identifier, and the
  \<open>resource\<close> values of the rows are exactly the keys.  In the row of a resource the fields
  \<open>create\<close>, \<open>delete\<close> and \<open>update\<close> are true if and only if the strings \<open>Create\<close>,
  \<open>Delete\<close> and \<open>Update\<close> are members of the operation set of that resource.
\<close>

theorem transform_one_row_per_resource:
  assumes "distinct (map fst items)"
  shows "transform None = [] \<and> transform (Some []) = [] \<and>
         length (transform (Some items)) = length items \<and>
         (\<forall>k \<in> fst ` set items.
            length (filter (\<lambda>r. r (ustr ''resource'') = Some (PStr k)) (transform (Some items))) = 1) \<and>
         {v. \<exists>r \<in> set (transform (Some items)). r (ustr ''resource'') = Some v} = PStr ` fst ` set items \<and>
         (\<forall>i < length items.
            (let r = transform (Some items) ! i; methods = methods_of (snd (items ! i))
             in r (ustr ''resource'') = Some (PStr (fst (items ! i))) \<and>
                r (ustr ''create'') = Some (PBool (ustr ''Create'' \<in> methods)) \<and>
                r (ustr ''delete'') = Some (PBool (ustr ''Delete'' \<in> methods)) \<and>
                r (ustr ''update'') = Some (PBool (ustr ''Update'' \<in> methods))))"
proof -
  have res: "\<And>item. coverage_row item (ustr ''resource'') = Some (PStr (fst item))"
    by (simp add: coverage_row_def ustr_def)
  have one: "\<forall>k \<in> fst ` set items.
      length (filter (\<lambda>r. r (ustr ''resource'') = Some (PStr k)) (transform (Some items))) = 1"
  proof
    fix k assume k: "k \<in> fst ` set items"
    have "filter (\<lambda>r. r (ustr ''resource'') = Some (PStr k)) (map coverage_row items)
        = map coverage_row (filter (\<lambda>item. fst item = k) items)"
      by (simp add: filter_map o_def res)
    with distinct_key_count[OF assms k] show
      "length (filter (\<lambda>r. r (ustr ''resource'') = Some (PStr k)) (transform (Some items))) = 1"
      by (simp add: transform_Some)
  qed
  have keys: "{v. \<exists>r \<in> set (transform (Some items)). r (ustr ''resource'') = Some v}
      = PStr ` fst ` set items"
    by (auto simp: transform_Some res image_iff)
  have fields: "\<forall>i < length items.
            (let r = transform (Some items) ! i; methods = methods_of (snd (items ! i))
             in r (ustr ''resource'') = Some (PStr (fst (items ! i))) \<and>
                r (ustr ''create'') = Some (PBool (ustr ''Create'' \<in> methods)) \<and>
                r (ustr ''delete'') = Some (PBool (ustr ''Delete'' \<in> methods)) \<and>
                r (ustr ''update'') = Some (PBool (ustr ''Update'' \<in> methods)))"
    by (simp add: transform_Some Let_def coverage_row_def ustr_def)
  have empty: "transform None = []" "transform (Some []) = []"
    by (simp_all add: transform_def)
  have len: "length (transform (Some items)) = length items"
    by (simp add: transform_Some)
  from empty len one keys fields show ?thesis
    by blast
qed

theorem transform_one_row_per_resource_witness:
  "distinct (map fst example_section) \<and>
   length (transform (Some example_section)) = 1 \<and>
   (transform (Some example_section) ! 0) (ustr ''resource'') = Some (PStr (ustr ''AWS::S3::Bucket'')) \<and>
   (transform (Some example_section) ! 0) (ustr ''create'') = Some (PBool True) \<and>
   (transform (Some example_section) ! 0) (ustr ''delete'') = Some (PBool True) \<and>
   (transform (Some example_section) ! 0) (ustr ''update'') = Some (PBool False)"
proof -
  have h: "distinct (map fst example_section)"
    by (simp add: example_section_def)
  have m: "methods_of (snd (example_section ! 0)) = {ustr ''Create'', ustr ''Delete''}"
    by (simp add: example_section_def methods_of_def)
  have l: "length example_section = 1" by (simp add: example_section_def)
  have f: "fst (example_section ! 0) = ustr ''AWS::S3::Bucket''" by (simp add: example_section_def)
  from transform_one_row_per_resource[OF h] l
  have "(let r = transform (Some example_section) ! 0; methods = methods_of (snd (example_section ! 0))
             in r (ustr ''resource'') = Some (PStr (fst (example_section ! 0))) \<and>
                r (ustr ''create'') = Some (PBool (ustr ''Create'' \<in> methods)) \<and>
                r (ustr ''delete'') = Some (PBool (ustr ''Delete'' \<in> methods)) \<and>
                r (ustr ''update'') = Some (PBool (ustr ''Update'' \<in> methods)))"
    and "length (transform (Some example_section)) = 1"
    by simp_all
  then show ?thesis using h unfolding m f Let_def
    by (simp add: ustr_def)
qed

section \<open>Table renderer: properties\<close>

lemma Max_insert_max:
  "finite S \<Longrightarrow> Max (insert (max (a::nat) b) S) = max a (Max (insert b S))"
  by (cases "S = {}") (simp_all add: max.assoc)

lemma foldl_max_Max:
  "foldl (\<lambda>m x. max m (f x)) (a::nat) xs = Max (insert a (f ` set xs))"
proof (induction xs arbitrary: a)
  case Nil
  then show ?case by simp
next
  case (Cons x xs)
  have "Max (insert (max a (f x)) (f ` set xs)) = max a (Max (insert (f x) (f ` set xs)))"
    by (rule Max_insert_max) simp
  with Cons show ?case by simp
qed

lemma column_width_Max:
  "column_width col data = Max (insert (length (header col)) ((\<lambda>r. length (cell_text col r)) ` set data))"
  by (simp add: column_width_def foldl_max_Max cell_text_def)

lemma column_width_header: "length (header col) \<le> column_width col data"
  by (simp add: column_width_Max)

lemma column_width_cell: "r \<in> set data \<Longrightarrow> length (cell_text col r) \<le> column_width col data"
  by (simp add: column_width_Max)

lemma length_center: "length v \<le> w \<Longrightarrow> length (center v w) = w"
proof -
  assume le: "length v \<le> w"
  define marg where "marg = w - length v"
  define left where "left = marg div 2 + (if odd marg \<and> odd w then 1 else 0)"
  have "left \<le> marg"
    unfolding left_def by (cases "odd marg") (auto elim: oddE)
  with le have "left + length v + (marg - left) = w"
    unfolding marg_def by simp
  then show ?thesis
    by (simp add: center_def Let_def marg_def[symmetric] left_def[symmetric])
qed

lemma length_format_cell: "length v \<le> w \<Longrightarrow> length (format_cell v w a) = w"
  by (simp add: format_cell_def rjust_def ljust_def length_center)

lemma length_widths [simp]: "length (calculate_column_widths self data) = length (columns self)"
  by (simp add: calculate_column_widths_def)

lemma nth_widths:
  "i < length (columns self) \<Longrightarrow>
   calculate_column_widths self data ! i = column_width (columns self ! i) data"
  by (simp add: calculate_column_widths_def)

lemma length_header_cells [simp]: "length (header_cells self ws) = length (columns self)"
  by (simp add: header_cells_def get_headers_def)

lemma length_data_cells [simp]: "length (data_cells self ws r) = length (columns self)"
  by (simp add: data_cells_def)

lemma nth_header_cells:
  "i < length (columns self) \<Longrightarrow>
   header_cells self ws ! i = format_cell (header (columns self ! i)) (ws ! i) (alignment (columns self ! i))"
  by (simp add: header_cells_def get_headers_def)

lemma nth_data_cells:
  "i < length (columns self) \<Longrightarrow>
   data_cells self ws r ! i =
     format_cell (cell_text (columns self ! i) r) (ws ! i) (alignment (columns self ! i))"
  by (simp add: data_cells_def cell_text_def Let_def)

lemma length_join:
  "cells \<noteq> [] \<Longrightarrow> length (join sep cells) = sum_list (map length cells) + length sep * (length cells - 1)"
  by (induction sep cells rule: join.induct) auto

lemma length_row_text:
  "cells \<noteq> [] \<Longrightarrow> length (row_text cells) = sum_list (map length cells) + 3 * length cells + 1"
  by (cases cells) (auto simp: row_text_def length_join ustr_def)

lemma sum_list_nth_eq:
  assumes "length xs = length ys" and "\<And>i. i < length xs \<Longrightarrow> f (xs ! i) = ys ! i"
  shows "sum_list (map f xs) = sum_list ys"
proof -
  have "map f xs = ys"
    using assms by (intro nth_equalityI) simp_all
  then show ?thesis by simp
qed

lemma length_header_text:
  assumes "columns self \<noteq> []"
  shows "length (row_text (header_cells self (calculate_column_widths self rows))) =
         sum_list (calculate_column_widths self rows) + 3 * length (columns self) + 1"
proof -
  let ?ws = "calculate_column_widths self rows"
  have "sum_list (map length (header_cells self ?ws)) = sum_list ?ws"
    by (rule sum_list_nth_eq)
       (simp_all add: nth_header_cells nth_widths length_format_cell column_width_header)
  moreover have "header_cells self ?ws \<noteq> []"
    using assms by (simp add: header_cells_def get_headers_def)
  ultimately show ?thesis by (simp add: length_row_text)
qed

lemma length_data_text:
  assumes "columns self \<noteq> []" and "r \<in> set rows"
  shows "length (row_text (data_cells self (calculate_column_widths self rows) r)) =
         sum_list (calculate_column_widths self rows) + 3 * length (columns self) + 1"
proof -
  let ?ws = "calculate_column_widths self rows"
  have "sum_list (map length (data_cells self ?ws r)) = sum_list ?ws"
    using assms(2) by (intro sum_list_nth_eq)
       (simp_all add: nth_data_cells nth_widths length_format_cell column_width_cell)
  moreover have "data_cells self ?ws r \<noteq> []"
    using assms(1) by (simp add: data_cells_def)
  ultimately show ?thesis by (simp add: length_row_text)
qed

lemma write_rows_loop_ok:
  "length (columns self) \<le> length ws \<Longrightarrow>
   write_rows_loop self ws writer rows =
     Inr (writer @ concat (map (\<lambda>r. row_line (data_cells self ws r)) rows))"
  by (induction rows arbitrary: writer) simp_all

lemma rstrip_newlines_line: "c \<noteq> 10 \<Longrightarrow> rstrip_newlines (xs @ [c, 10]) @ [10] = xs @ [c, 10]"
  by (simp add: rstrip_newlines_def)

lemma row_line_end: "row_line cells = (ustr ''| '' @ join (ustr '' | '') cells @ ustr '' '') @ [124, 10]"
  by (simp add: row_line_def row_text_def ustr_def)

lemma separator_line_end: "\<exists>xs. separator_line seps = xs @ [124, 10]"
  by (simp add: separator_line_def ustr_def)

lemma table_text_end: "\<exists>xs. table_text self ws rows = xs @ [124, 10]"
proof (cases rows rule: rev_cases)
  case Nil
  obtain xs where "separator_line (separator_cells self ws) = xs @ [124, 10]"
    using separator_line_end by blast
  with Nil show ?thesis by (simp add: table_text_def)
next
  case (snoc rs r)
  show ?thesis
    unfolding table_text_def snoc by (simp add: row_line_end)
qed

lemma rstrip_table_text: "rstrip_newlines (table_text self ws rows) @ [10] = table_text self ws rows"
proof -
  obtain xs where "table_text self ws rows = xs @ [124, 10]"
    using table_text_end by blast
  then show ?thesis by (simp add: rstrip_newlines_line)
qed

lemma generate_table_rows:
  assumes "rows \<noteq> []"
  shows "generate_table self (Some rows) =
         (case ordered_rows self rows of
            Inl e \<Rightarrow> Inl e
          | Inr rows' \<Rightarrow> Inr (table_text self (calculate_column_widths self rows) rows'))"
  using assms
  by (auto simp: generate_table_def Let_def write_header_row_def write_separator_row_def
      get_headers_def write_data_rows_def ordered_rows_def write_rows_loop_ok
      table_text_def[symmetric] rstrip_table_text split: sum.splits)

lemma py_sorted_mset: "py_sorted k data = Inr rows' \<Longrightarrow> mset rows' = mset data"
  by (auto simp: py_sorted_def split: if_splits)

lemma ordered_rows_mset: "ordered_rows self data = Inr rows' \<Longrightarrow> mset rows' = mset data"
  by (auto simp: ordered_rows_def py_sorted_mset split: if_splits)

lemma write_header_row_widths:
  "write_header_row self buffer (calculate_column_widths self rows) =
     Inr (buffer @ row_text (header_cells self (calculate_column_widths self rows)) @ [10])"
  by (simp add: write_header_row_def get_headers_def row_line_def)

lemma write_data_rows_widths:
  "write_data_rows self buffer rows (calculate_column_widths self rows) =
     (case ordered_rows self rows of
        Inl e \<Rightarrow> Inl e
      | Inr rows' \<Rightarrow>
          Inr (buffer @ concat (map (\<lambda>r. row_text (data_cells self
                                      (calculate_column_widths self rows) r) @ [10]) rows')))"
  by (simp add: write_data_rows_def ordered_rows_def write_rows_loop_ok row_line_def
      split: sum.splits)

lemma table_config_not_sorted: "\<not> sort_active table_config"
  by (simp add: sort_active_def table_config_def)

text \<open>
  Claim C5.  For a non-empty list of rows, the computed width of a column is the maximum of
  the length of its header and of the lengths of the formatted values of all rows in that
  column.  The header cell and the cell of every row in that column are the texts padded by
  \<open>_format_cell\<close> and have exactly that length.  These cells are the rendered ones: the header
  writer writes the line of the header cells, the row writer one line of cells per row, and
  the text that \<open>generate_table\<close> returns is the header line, the separator line and the lines
  of the rows, the rows being those given (sorted when a sort key is set, an error when their
  keys cannot be compared).
\<close>

theorem column_width_correct:
  assumes "i < length (columns self)" and "rows \<noteq> []"
  shows "(let col = columns self ! i; widths = calculate_column_widths self rows;
              written = (if sort_active self then py_sorted (the (sort_by self)) rows else Inr rows)
          in widths ! i = Max (insert (length (header col))
                                 ((\<lambda>r. length (format_value col (row_get r (key col)))) ` set rows)) \<and>
             header_cells self widths ! i = format_cell (header col) (widths ! i) (alignment col) \<and>
             length (header_cells self widths ! i) = widths ! i \<and>
             (\<forall>r \<in> set rows.
                data_cells self widths r ! i =
                  format_cell (format_value col (row_get r (key col))) (widths ! i) (alignment col) \<and>
                length (data_cells self widths r ! i) = widths ! i) \<and>
             write_header_row self buffer widths =
               Inr (buffer @ row_text (header_cells self widths) @ [10]) \<and>
             write_data_rows self buffer rows widths =
               (case written of
                  Inl e \<Rightarrow> Inl e
                | Inr rows' \<Rightarrow>
                    Inr (buffer @ concat (map (\<lambda>r. row_text (data_cells self widths r) @ [10]) rows'))) \<and>
             generate_table self (Some rows) =
               (case written of
                  Inl e \<Rightarrow> Inl e
                | Inr rows' \<Rightarrow>
                    Inr (row_text (header_cells self widths) @ [10] @
                         separator_line (separator_cells self widths) @
                         concat (map (\<lambda>r. row_text (data_cells self widths r) @ [10]) rows'))) \<and>
             (\<forall>rows'. written = Inr rows' \<longrightarrow> mset rows' = mset rows) \<and>
             (\<not> sort_active self \<longrightarrow> written = Inr rows))"
proof -
  let ?col = "columns self ! i"
  let ?ws = "calculate_column_widths self rows"
  let ?written = "if sort_active self then py_sorted (the (sort_by self)) rows else Inr rows"
  have o: "?written = ordered_rows self rows" by (simp add: ordered_rows_def)
  have w: "?ws ! i = column_width ?col rows"
    using assms(1) by (rule nth_widths)
  have a: "?ws ! i = Max (insert (length (header ?col))
                 ((\<lambda>r. length (format_value ?col (row_get r (key ?col)))) ` set rows))"
    unfolding w column_width_Max cell_text_def ..
  have b1: "header_cells self ?ws ! i = format_cell (header ?col) (?ws ! i) (alignment ?col)"
    using assms(1) by (rule nth_header_cells)
  have b2: "length (header_cells self ?ws ! i) = ?ws ! i"
    using assms(1) by (simp add: nth_header_cells w length_format_cell column_width_header)
  have c: "\<forall>r \<in> set rows.
                data_cells self ?ws r ! i =
                  format_cell (format_value ?col (row_get r (key ?col))) (?ws ! i) (alignment ?col) \<and>
                length (data_cells self ?ws r ! i) = ?ws ! i"
  proof (intro ballI conjI)
    fix r assume r: "r \<in> set rows"
    show "data_cells self ?ws r ! i =
            format_cell (format_value ?col (row_get r (key ?col))) (?ws ! i) (alignment ?col)"
      using assms(1) by (simp add: nth_data_cells cell_text_def)
    show "length (data_cells self ?ws r ! i) = ?ws ! i"
      using assms(1) r by (simp add: nth_data_cells w length_format_cell column_width_cell)
  qed
  have d: "write_header_row self buffer ?ws = Inr (buffer @ row_text (header_cells self ?ws) @ [10])"
    by (rule write_header_row_widths)
  have e: "write_data_rows self buffer rows ?ws =
               (case ?written of
                  Inl e \<Rightarrow> Inl e
                | Inr rows' \<Rightarrow>
                    Inr (buffer @ concat (map (\<lambda>r. row_text (data_cells self ?ws r) @ [10]) rows')))"
    unfolding o by (rule write_data_rows_widths)
  have f: "generate_table self (Some rows) =
               (case ?written of
                  Inl e \<Rightarrow> Inl e
                | Inr rows' \<Rightarrow>
                    Inr (row_text (header_cells self ?ws) @ [10] @
                         separator_line (separator_cells self ?ws) @
                         concat (map (\<lambda>r. row_text (data_cells self ?ws r) @ [10]) rows')))"
    unfolding o generate_table_rows[OF assms(2)]
    by (simp add: table_text_def row_line_def split: sum.splits)
  have g: "\<forall>rows'. ?written = Inr rows' \<longrightarrow> mset rows' = mset rows"
    unfolding o using ordered_rows_mset by blast
  have h: "\<not> sort_active self \<longrightarrow> ?written = Inr rows" by simp
  from a b1 b2 c d e f g h show ?thesis
    unfolding Let_def by blast
qed

theorem column_width_correct_witness:
  "0 < length (columns table_config) \<and> example_rows \<noteq> [] \<and>
   calculate_column_widths table_config example_rows ! 0 = 15 \<and>
   length (header_cells table_config (calculate_column_widths table_config example_rows) ! 0) = 15 \<and>
   length (data_cells table_config (calculate_column_widths table_config example_rows)
             (example_rows ! 0) ! 0) = 15 \<and>
   generate_table table_config (Some example_rows) =
     Inr (row_text (header_cells table_config (calculate_column_widths table_config example_rows)) @ [10] @
          separator_line (separator_cells table_config (calculate_column_widths table_config example_rows)) @
          concat (map (\<lambda>r. row_text (data_cells table_config
                              (calculate_column_widths table_config example_rows) r) @ [10]) example_rows))"
proof -
  have h: "0 < length (columns table_config)"
    by (simp add: table_config_def)
  have ne: "example_rows \<noteq> []"
    by (simp add: example_rows_def transform_Some example_section_def)
  have r: "example_rows ! 0 \<in> set example_rows"
    using ne by simp
  have w: "calculate_column_widths table_config example_rows ! 0 = 15"
    by (simp add: example_rows_def transform_Some example_section_def coverage_row_def
        calculate_column_widths_def column_width_def table_config_def format_value_def
        row_get_def ustr_def)
  have s: "\<not> sort_active table_config" by (rule table_config_not_sorted)
  note t = column_width_correct[OF h ne, unfolded Let_def]
  from t have 1: "length (header_cells table_config
       (calculate_column_widths table_config example_rows) ! 0) =
       calculate_column_widths table_config example_rows ! 0"
    by blast
  from t r have 2: "length (data_cells table_config (calculate_column_widths table_config example_rows)
             (example_rows ! 0) ! 0) = calculate_column_widths table_config example_rows ! 0"
    by blast
  from t have "generate_table table_config (Some example_rows) =
               (case (if sort_active table_config then py_sorted (the (sort_by table_config)) example_rows
                      else Inr example_rows) of
                  Inl e \<Rightarrow> Inl e
                | Inr rows' \<Rightarrow>
                    Inr (row_text (header_cells table_config (calculate_column_widths table_config example_rows)) @ [10] @
                         separator_line (separator_cells table_config (calculate_column_widths table_config example_rows)) @
                         concat (map (\<lambda>r. row_text (data_cells table_config
                              (calculate_column_widths table_config example_rows) r) @ [10]) rows')))"
    by blast
  with s have 3: "generate_table table_config (Some example_rows) =
     Inr (row_text (header_cells table_config (calculate_column_widths table_config example_rows)) @ [10] @
          separator_line (separator_cells table_config (calculate_column_widths table_config example_rows)) @
          concat (map (\<lambda>r. row_text (data_cells table_config
                              (calculate_column_widths table_config example_rows) r) @ [10]) example_rows))"
    by simp
  from h ne w 1 2 3 show ?thesis by simp
qed

text \<open>
  Claim C8, as stated, fails on a row that lacks the key of a column without formatter: the
  lookup default is the empty string, which is not \<open>None\<close>, so the cell is empty and not the
  placeholder.
\<close>

theorem format_value_missing_key_counterexample:
  "format_value resource_column (row_get Map.empty (key resource_column)) \<noteq> ustr ''-''"
  by (simp add: format_value_def resource_column_def row_get_def ustr_def)

text \<open>
  Claim C8, amended.  The formatted value of a cell is the formatter applied to the value
  looked up in the row (the empty string when the row lacks the key) if the column has a
  formatter; without a formatter it is \<open>str(value)\<close> when the row holds a value other than
  \<open>None\<close>, the placeholder \<open>-\<close> when the row holds \<open>None\<close>, and the empty string when the row
  lacks the key.  The cell written for a row is this text padded to the width of the column.
\<close>

theorem format_value_cases:
  "(formatter col = Some f \<longrightarrow> format_value col (row_get r (key col)) = f (row_get r (key col))) \<and>
   (formatter col = None \<and> r (key col) = Some v \<and> v \<noteq> PNone \<longrightarrow>
      format_value col (row_get r (key col)) = py_str v) \<and>
   (formatter col = None \<and> r (key col) = Some PNone \<longrightarrow>
      format_value col (row_get r (key col)) = ustr ''-'') \<and>
   (formatter col = None \<and> r (key col) = None \<longrightarrow>
      format_value col (row_get r (key col)) = []) \<and>
   (i < length (columns self) \<longrightarrow>
      data_cells self ws r ! i =
        format_cell (format_value (columns self ! i) (row_get r (key (columns self ! i))))
          (ws ! i) (alignment (columns self ! i)))"
proof -
  have "i < length (columns self) \<longrightarrow>
      data_cells self ws r ! i =
        format_cell (format_value (columns self ! i) (row_get r (key (columns self ! i))))
          (ws ! i) (alignment (columns self ! i))"
    by (simp add: nth_data_cells cell_text_def)
  then show ?thesis
    by (simp add: format_value_def row_get_def)
qed

theorem format_value_cases_witness:
  "format_value create_column (row_get [ustr ''create'' \<mapsto> PBool True] (key create_column)) = check_glyph \<and>
   format_value resource_column (row_get [ustr ''resource'' \<mapsto> PStr (ustr ''AWS::S3::Bucket'')] (key resource_column))
     = ustr ''AWS::S3::Bucket'' \<and>
   format_value resource_column (row_get [ustr ''resource'' \<mapsto> PNone] (key resource_column)) = ustr ''-'' \<and>
   format_value resource_column (row_get Map.empty (key resource_column)) = [] \<and>
   data_cells table_config [15, 6, 6, 6] Map.empty ! 0 = replicate 15 32"
proof -
  have a: "format_value create_column (row_get [ustr ''create'' \<mapsto> PBool True] (key create_column)) = check_glyph"
    using format_value_cases[of create_column bool_formatter "[ustr ''create'' \<mapsto> PBool True]"]
    by (simp add: create_column_def row_get_def bool_formatter_def)
  have b: "format_value resource_column (row_get [ustr ''resource'' \<mapsto> PStr (ustr ''AWS::S3::Bucket'')] (key resource_column))
     = ustr ''AWS::S3::Bucket''"
    using format_value_cases[of resource_column _ "[ustr ''resource'' \<mapsto> PStr (ustr ''AWS::S3::Bucket'')]"
        "PStr (ustr ''AWS::S3::Bucket'')"]
    by (simp add: resource_column_def)
  have c: "format_value resource_column (row_get [ustr ''resource'' \<mapsto> PNone] (key resource_column)) = ustr ''-''"
    using format_value_cases[of resource_column _ "[ustr ''resource'' \<mapsto> PNone]"]
    by (simp add: resource_column_def)
  have d: "format_value resource_column (row_get Map.empty (key resource_column)) = []"
    using format_value_cases[of resource_column _ Map.empty]
    by (simp add: resource_column_def)
  have e: "data_cells table_config [15, 6, 6, 6] Map.empty ! 0 = replicate 15 32"
    using format_value_cases[of _ _ Map.empty _ 0 table_config "[15, 6, 6, 6]"] d
    by (simp add: table_config_def resource_column_def format_cell_def ljust_def ustr_def)
  from a b c d e show ?thesis by blast
qed

text \<open>
  Claim C7, as stated, fails for a right-aligned column: in the table of the example the
  column \<open>Create\<close> has width 6 and its separator has 7 dashes before the colon.
\<close>

theorem separator_right_counterexample:
  "calculate_column_widths table_config example_rows ! 1 = 6 \<and>
   separator_cells table_config (calculate_column_widths table_config example_rows) ! 1
     = ustr ''-------:''"
  by (simp add: example_rows_def transform_Some example_section_def coverage_row_def
      calculate_column_widths_def column_width_def table_config_def format_value_def row_get_def
      bool_formatter_def check_glyph_def methods_of_def separator_cells_def
      get_alignment_separator_def ustr_def)

text \<open>
  Claim C7, amended.  The separator cell of a column of computed width \<open>w\<close> is \<open>w + 1\<close> dashes
  followed by a colon for a right-aligned column, a colon, \<open>w\<close> dashes and a colon for a
  centered column, and \<open>w\<close> dashes without colon for any other alignment; the separator row is
  these cells between bars.
\<close>

theorem separator_encoding:
  assumes "i < length (columns self)"
  shows "(let a = alignment (columns self ! i); widths = calculate_column_widths self rows;
              w = widths ! i
          in separator_cells self widths ! i =
               (if a = ustr ''right'' then replicate (w + 1) 45 @ [58]
                else if a = ustr ''center'' then [58] @ replicate w 45 @ [58]
                else replicate w 45) \<and>
             write_separator_row self buffer widths =
               Inr (buffer @ [124] @ join [124] (separator_cells self widths) @ [124, 10]))"
  using assms
  by (simp add: Let_def separator_cells_def get_alignment_separator_def write_separator_row_def
      separator_line_def ustr_def)

theorem separator_encoding_witness:
  "1 < length (columns table_config) \<and>
   separator_cells table_config (calculate_column_widths table_config example_rows) ! 1
     = replicate (calculate_column_widths table_config example_rows ! 1 + 1) 45 @ [58] \<and>
   separator_cells table_config (calculate_column_widths table_config example_rows) ! 0
     = replicate (calculate_column_widths table_config example_rows ! 0) 45"
proof -
  have h1: "1 < length (columns table_config)" and h0: "0 < length (columns table_config)"
    by (simp_all add: table_config_def)
  have a1: "alignment (columns table_config ! 1) = ustr ''right''"
    and a0: "alignment (columns table_config ! 0) = ustr ''left''"
    by (simp_all add: table_config_def)
  from separator_encoding[OF h1, of example_rows] separator_encoding[OF h0, of example_rows] h1
  show ?thesis
    unfolding Let_def a1 a0 by (simp add: ustr_def)
qed

text \<open>
  Claim C10, as stated, fails for a table without columns: the header line and the data lines
  are \<open>|  |\<close>, of length 4, where the claim gives 1.
\<close>

theorem line_length_no_columns_counterexample:
  "row_text (header_cells no_columns (calculate_column_widths no_columns [Map.empty])) = ustr ''|  |'' \<and>
   row_text (data_cells no_columns (calculate_column_widths no_columns [Map.empty]) Map.empty) = ustr ''|  |'' \<and>
   sum_list (calculate_column_widths no_columns [Map.empty]) + 3 * length (columns no_columns) + 1 = 1 \<and>
   generate_table no_columns (Some [Map.empty]) =
     Inr (ustr ''|  |'' @ [10] @ ustr ''||'' @ [10] @ ustr ''|  |'' @ [10])"
  by (simp add: no_columns_def generate_table_rows ordered_rows_def sort_active_def table_text_def
      row_line_def row_text_def header_cells_def data_cells_def separator_cells_def separator_line_def
      calculate_column_widths_def get_headers_def ustr_def)

text \<open>
  Claim C10, amended.  For a table with at least one column, the header line and the line of
  every row have the same length, the sum of the computed widths plus three times the number of
  columns plus one (the newline not counted); and the text that \<open>generate_table\<close> returns for a
  non-empty list of rows is the header line, the separator line and these lines of the rows, in
  the order the rows are written.
\<close>

theorem line_length_uniform:
  assumes "columns self \<noteq> []"
  shows "(let widths = calculate_column_widths self rows;
              n = sum_list widths + 3 * length (columns self) + 1
          in length (row_text (header_cells self widths)) = n \<and>
             (\<forall>r \<in> set rows. length (row_text (data_cells self widths r)) = n) \<and>
             (\<forall>out. rows \<noteq> [] \<and> generate_table self (Some rows) = Inr out \<longrightarrow>
                (\<exists>rows'. mset rows' = mset rows \<and>
                   out = row_text (header_cells self widths) @ [10] @
                         separator_line (separator_cells self widths) @
                         concat (map (\<lambda>r. row_text (data_cells self widths r) @ [10]) rows'))))"
proof -
  let ?ws = "calculate_column_widths self rows"
  have a: "length (row_text (header_cells self ?ws)) = sum_list ?ws + 3 * length (columns self) + 1"
    using assms by (rule length_header_text)
  have b: "\<forall>r \<in> set rows. length (row_text (data_cells self ?ws r)) =
             sum_list ?ws + 3 * length (columns self) + 1"
    using assms by (simp add: length_data_text)
  have c: "\<exists>rows'. mset rows' = mset rows \<and>
                   out = row_text (header_cells self ?ws) @ [10] @
                         separator_line (separator_cells self ?ws) @
                         concat (map (\<lambda>r. row_text (data_cells self ?ws r) @ [10]) rows')"
    if "rows \<noteq> []" and "generate_table self (Some rows) = Inr out" for out
  proof -
    from that obtain rows' where o: "ordered_rows self rows = Inr rows'"
      and out: "out = table_text self ?ws rows'"
      by (auto simp: generate_table_rows split: sum.splits)
    from o have "mset rows' = mset rows" by (rule ordered_rows_mset)
    with out show ?thesis
      by (auto simp: table_text_def row_line_def)
  qed
  from a b c show ?thesis by (simp add: Let_def)
qed

theorem line_length_uniform_witness:
  "columns table_config \<noteq> [] \<and>
   length (row_text (header_cells table_config (calculate_column_widths table_config example_rows))) = 46 \<and>
   length (row_text (data_cells table_config (calculate_column_widths table_config example_rows)
                       (example_rows ! 0))) = 46 \<and>
   sum_list (calculate_column_widths table_config example_rows) + 3 * length (columns table_config) + 1 = 46"
proof -
  have h: "columns table_config \<noteq> []" by (simp add: table_config_def)
  have r: "example_rows ! 0 \<in> set example_rows"
    by (simp add: example_rows_def transform_Some example_section_def)
  have w: "calculate_column_widths table_config example_rows = [15, 6, 6, 6]"
    by (simp add: example_rows_def transform_Some example_section_def coverage_row_def
      calculate_column_widths_def column_width_def table_config_def format_value_def row_get_def
      bool_formatter_def check_glyph_def methods_of_def ustr_def)
  have n: "length (columns table_config) = 4" by (simp add: table_config_def)
  from line_length_uniform[OF h, of example_rows] r h show ?thesis
    unfolding Let_def w n by simp
qed

lemma generate_table_pipeline:
  "rows \<noteq> [] \<Longrightarrow> generate_table table_config (Some rows) =
     Inr (table_text table_config (calculate_column_widths table_config rows) rows)"
  by (simp add: generate_table_rows ordered_rows_def table_config_not_sorted)

text \<open>
  Claim C9.  The i-th row of \<open>transform\<close> has as \<open>resource\<close> the i-th key of the section in
  iteration order; the table configuration of the pipeline has no sort key, and
  \<open>generate_table\<close> writes the lines of the rows in the order of the list it is given.
\<close>

theorem rows_in_input_order:
  "(\<forall>i < length items.
      (transform (Some items) ! i) (ustr ''resource'') = Some (PStr (fst (items ! i)))) \<and>
   sort_by table_config = None \<and>
   (rows \<noteq> [] \<longrightarrow>
      generate_table table_config (Some rows) =
        Inr (row_text (header_cells table_config (calculate_column_widths table_config rows)) @ [10] @
             separator_line (separator_cells table_config (calculate_column_widths table_config rows)) @
             concat (map (\<lambda>r. row_text (data_cells table_config
                                          (calculate_column_widths table_config rows) r) @ [10]) rows)))"
proof -
  have a: "\<forall>i < length items.
      (transform (Some items) ! i) (ustr ''resource'') = Some (PStr (fst (items ! i)))"
    by (simp add: transform_Some coverage_row_def ustr_def)
  have b: "sort_by table_config = None" by (simp add: table_config_def)
  have c: "rows \<noteq> [] \<longrightarrow>
      generate_table table_config (Some rows) =
        Inr (row_text (header_cells table_config (calculate_column_widths table_config rows)) @ [10] @
             separator_line (separator_cells table_config (calculate_column_widths table_config rows)) @
             concat (map (\<lambda>r. row_text (data_cells table_config
                                          (calculate_column_widths table_config rows) r) @ [10]) rows))"
    by (simp add: generate_table_pipeline table_text_def row_line_def)
  from a b c show ?thesis by blast
qed

theorem rows_in_input_order_witness:
  "(transform (Some unsorted_section) ! 0) (ustr ''resource'') = Some (PStr (ustr ''B'')) \<and>
   (transform (Some unsorted_section) ! 1) (ustr ''resource'') = Some (PStr (ustr ''A'')) \<and>
   generate_table table_config (Some (transform (Some unsorted_section))) =
     Inr (row_text (header_cells table_config [8, 6, 6, 6]) @ [10] @
          separator_line (separator_cells table_config [8, 6, 6, 6]) @
          row_text (data_cells table_config [8, 6, 6, 6] (transform (Some unsorted_section) ! 0)) @ [10] @
          row_text (data_cells table_config [8, 6, 6, 6] (transform (Some unsorted_section) ! 1)) @ [10])"
proof -
  let ?rows = "transform (Some unsorted_section)"
  have l: "length unsorted_section = 2" by (simp add: unsorted_section_def)
  have k: "fst (unsorted_section ! 0) = ustr ''B''" "fst (unsorted_section ! 1) = ustr ''A''"
    by (simp_all add: unsorted_section_def)
  have r: "?rows = [?rows ! 0, ?rows ! 1]"
    by (simp add: transform_Some unsorted_section_def)
  have ne: "?rows \<noteq> []"
    by (simp add: transform_Some unsorted_section_def)
  have w: "calculate_column_widths table_config ?rows = [8, 6, 6, 6]"
    by (simp add: transform_Some unsorted_section_def coverage_row_def
      calculate_column_widths_def column_width_def table_config_def format_value_def row_get_def
      bool_formatter_def check_glyph_def methods_of_def ustr_def)
  from rows_in_input_order[of unsorted_section ?rows] l k ne
  have "(?rows ! 0) (ustr ''resource'') = Some (PStr (ustr ''B''))"
    and "(?rows ! 1) (ustr ''resource'') = Some (PStr (ustr ''A''))"
    and "generate_table table_config (Some ?rows) =
        Inr (row_text (header_cells table_config (calculate_column_widths table_config ?rows)) @ [10] @
             separator_line (separator_cells table_config (calculate_column_widths table_config ?rows)) @
             concat (map (\<lambda>r. row_text (data_cells table_config
                                          (calculate_column_widths table_config ?rows) r) @ [10]) ?rows))"
    by auto
  then show ?thesis
    unfolding w by (subst (asm) (3) r) simp
qed
section \<open>Section replacer: properties\<close>

lemma star_ends_bounds:
  assumes "i \<le> length s" and "j \<in> set [i ..< Suc (i + length (takeWhile p (drop i s)))]"
  shows "i \<le> j \<and> j \<le> length s"
proof -
  have "length (takeWhile p (drop i s)) \<le> length s - i"
    using length_takeWhile_le[of p "drop i s"] by simp
  moreover from assms(2) have "i \<le> j" "j < Suc (i + length (takeWhile p (drop i s)))"
    by (simp_all del: upt_Suc)
  ultimately show ?thesis using assms(1) by linarith
qed

lemma rx_ends_bounds:
  "i \<le> length s \<Longrightarrow> j \<in> set (rx_ends r s i) \<Longrightarrow> i \<le> j \<and> j \<le> length s"
proof (induction r arbitrary: i j)
  case (Cls p)
  then show ?case by (simp split: if_splits)
next
  case Eps
  then show ?case by simp
next
  case Bol
  then show ?case by (simp split: if_splits)
next
  case Eol
  then show ?case by (simp split: if_splits)
next
  case Eos
  then show ?case by (simp split: if_splits)
next
  case (Seq a b)
  from Seq.prems(2) obtain m where m: "m \<in> set (rx_ends a s i)" and j: "j \<in> set (rx_ends b s m)"
    by auto
  from Seq.IH(1)[OF Seq.prems(1) m] have "i \<le> m" "m \<le> length s" by simp_all
  with Seq.IH(2)[OF _ j] show ?case by simp
next
  case (Alt a b)
  from Alt.prems(2) have "j \<in> set (rx_ends a s i) \<or> j \<in> set (rx_ends b s i)" by simp
  with Alt.IH(1)[OF Alt.prems(1)] Alt.IH(2)[OF Alt.prems(1)] show ?case by blast
next
  case (Star p)
  from Star(2) have "j \<in> set [i ..< Suc (i + length (takeWhile p (drop i s)))]"
    by (simp del: upt_Suc)
  with Star(1) show ?case by (rule star_ends_bounds)
next
  case (LazyStar p)
  from LazyStar(2) have "j \<in> set [i ..< Suc (i + length (takeWhile p (drop i s)))]"
    by (simp del: upt_Suc)
  with LazyStar(1) show ?case by (rule star_ends_bounds)
next
  case (Look a)
  from Look.prems show ?case by (simp split: if_splits)
next
  case (NLook a)
  from NLook.prems show ?case by (simp split: if_splits)
qed

lemma heading_branch_bounds:
  assumes "i \<le> length s" and "j \<in> set (heading_ends S s i)"
  shows "i \<le> j \<and> j \<le> length s"
proof -
  from assms(2) obtain r where "j \<in> set (rx_ends r s i)"
    by (auto simp: heading_ends_def)
  with assms(1) show ?thesis by (rule rx_ends_bounds)
qed

lemma first_some_None_iff: "first_some f xs = None \<longleftrightarrow> (\<forall>x \<in> set xs. f x = None)"
  by (induction xs) (auto split: option.splits)

lemma first_some_Some_split:
  "first_some f xs = Some y \<Longrightarrow>
   \<exists>ys x zs. xs = ys @ x # zs \<and> f x = Some y \<and> (\<forall>a \<in> set ys. f a = None)"
proof (induction xs)
  case Nil
  then show ?case by simp
next
  case (Cons a xs)
  show ?case
  proof (cases "f a")
    case None
    with Cons obtain ys x zs where "xs = ys @ x # zs" "f x = Some y" "\<forall>a \<in> set ys. f a = None"
      by auto
    with None have "a # xs = (a # ys) @ x # zs \<and> f x = Some y \<and> (\<forall>b \<in> set (a # ys). f b = None)"
      by simp
    then show ?thesis by blast
  next
    case (Some v)
    with Cons.prems have "a # xs = [] @ a # xs \<and> f a = Some y \<and> (\<forall>b \<in> set []. f b = None)"
      by simp
    then show ?thesis by blast
  qed
qed

lemma first_some_nth:
  "first_some f xs = Some y \<Longrightarrow>
   \<exists>i < length xs. f (xs ! i) = Some y \<and> (\<forall>i' < i. f (xs ! i') = None)"
proof (induction xs)
  case Nil
  then show ?case by simp
next
  case (Cons a xs)
  show ?case
  proof (cases "f a")
    case None
    with Cons obtain i where i: "i < length xs" "f (xs ! i) = Some y" "\<forall>i' < i. f (xs ! i') = None"
      by auto
    have "\<forall>i' < Suc i. f ((a # xs) ! i') = None"
    proof (intro allI impI)
      fix i' assume "i' < Suc i"
      then show "f ((a # xs) ! i') = None"
        using None i(3) by (cases i') simp_all
    qed
    with i(1,2) have "Suc i < length (a # xs) \<and> f ((a # xs) ! Suc i) = Some y \<and>
        (\<forall>i' < Suc i. f ((a # xs) ! i') = None)"
      by simp
    then show ?thesis by blast
  next
    case (Some v)
    with Cons.prems have "0 < length (a # xs) \<and> f ((a # xs) ! 0) = Some y \<and>
        (\<forall>i' < 0. f ((a # xs) ! i') = None)"
      by simp
    then show ?thesis by blast
  qed
qed

lemma first_some_upt:
  assumes "first_some f [0 ..< n] = Some y"
  shows "\<exists>i < n. f i = Some y \<and> (\<forall>i' < i. f i' = None)"
proof -
  from first_some_nth[OF assms] obtain i where i: "i < length [0 ..< n]"
    and y: "f ([0 ..< n] ! i) = Some y" and e: "\<forall>i' < i. f ([0 ..< n] ! i') = None"
    by blast
  from i have n: "i < n" by simp
  then have "[0 ..< n] ! i = i" by simp
  moreover have "f i' = None" if "i' < i" for i'
  proof -
    from that n have "[0 ..< n] ! i' = i'" by simp
    with e that show ?thesis by metis
  qed
  ultimately show ?thesis using y n by auto
qed

lemma content_end_Some:
  assumes "content_end E s j = Some k"
  shows "j \<le> k \<and> k \<le> length s \<and> lookahead E s k \<and> (\<forall>k'. j \<le> k' \<and> k' < k \<longrightarrow> \<not> lookahead E s k')"
proof -
  let ?xs = "[j ..< Suc (length s)]"
  from assms obtain n where n: "n < length ?xs"
    and p: "lookahead E s (?xs ! n)"
    and k: "k = ?xs ! n"
    and f: "\<forall>m < n. \<not> lookahead E s (?xs ! m)"
    unfolding content_end_def find_Some_iff by blast
  from n have jn: "j + n < Suc (length s)" by (simp del: upt_Suc)
  then have nth: "?xs ! m = j + m" if "m \<le> n" for m
    using that by (intro nth_upt) simp
  from k nth[of n] have kk: "k = j + n" by simp
  have "\<not> lookahead E s k'" if "j \<le> k'" "k' < k" for k'
  proof -
    from that kk have lt: "k' - j < n" by simp
    with f have "\<not> lookahead E s (?xs ! (k' - j))" by blast
    moreover have "?xs ! (k' - j) = k'"
      using that lt nth[of "k' - j"] by simp
    ultimately show ?thesis by simp
  qed
  moreover from p k have "lookahead E s k" by simp
  ultimately show ?thesis using kk jn by auto
qed


lemma match_at_Some:
  assumes "match_at S E s i = Some (i', j, k)"
  shows "i' = i \<and> j \<in> set (heading_ends S s i) \<and> content_end E s j = Some k"
proof -
  from assms obtain x where "x \<in> set (heading_ends S s i)"
    and "map_option (\<lambda>k. (i, x, k)) (content_end E s x) = Some (i', j, k)"
    unfolding match_at_def by (auto dest!: first_some_Some_split)
  then show ?thesis by auto
qed

lemma pattern_search_Some:
  assumes "pattern_search S E s = Some (i, j, k)"
  shows "i \<le> j \<and> j \<le> k \<and> k \<le> length s \<and> j \<in> set (heading_ends S s i) \<and>
         (\<forall>i' < i. match_at S E s i' = None) \<and>
         lookahead E s k \<and> (\<forall>k'. j \<le> k' \<and> k' < k \<longrightarrow> \<not> lookahead E s k')"
proof -
  from first_some_upt[OF assms[unfolded pattern_search_def]]
  obtain i0 where i0: "i0 < Suc (length s)" and m: "match_at S E s i0 = Some (i, j, k)"
    and e: "\<forall>i' < i0. match_at S E s i' = None"
    by blast
  from match_at_Some[OF m] have eq: "i = i0" and h: "j \<in> set (heading_ends S s i0)"
    and c: "content_end E s j = Some k" by simp_all
  from i0 have "i0 \<le> length s" by simp
  from heading_branch_bounds[OF this h] have "i0 \<le> j" "j \<le> length s" by simp_all
  with content_end_Some[OF c] eq h e show ?thesis by simp
qed

lemma tokenize_plain: "92 \<notin> set t \<Longrightarrow> tokenize t = Some (map Chr t)"
  by (induction t rule: tokenize.induct) auto

lemma parse_tokens_plain: "parse_tokens None (map Chr t) = Some (map Literal t)"
  by (induction t) auto

lemma expand_literals: "expand_template (map Literal t) g = t"
  by (induction t) auto

lemma parse_template_plain: "92 \<notin> set t \<Longrightarrow> parse_template t = Some (map Literal t)"
  by (simp add: parse_template_def tokenize_plain parse_tokens_plain)

lemma pattern_sub_plain:
  "pattern_search S E s = Some (i, j, k) \<Longrightarrow> 92 \<notin> set repl \<Longrightarrow>
   pattern_sub S E repl s = Inr (take i s @ repl @ drop k s)"
  by (simp add: pattern_sub_def parse_template_plain expand_literals)

lemma take_slice: "i \<le> j \<Longrightarrow> take i s @ slice s i j = take j s"
  unfolding slice_def by (metis le_add_diff_inverse take_add)

lemma slice_drop: "j \<le> k \<Longrightarrow> slice s j k @ drop k s = drop j s"
  unfolding slice_def by (metis append_take_drop_id drop_drop add.commute le_add_diff_inverse)

lemma replace_plain:
  assumes "pattern_search S E s = Some (i, j, k)"
    and "92 \<notin> set (slice s i j)" and "92 \<notin> set block"
  shows "replace_content_between s S E block = Inr (take j s @ block @ drop k s)"
proof -
  from pattern_search_Some[OF assms(1)] have ij: "i \<le> j" by simp
  have "replace_content_between s S E block =
        pattern_sub S E (if block \<noteq> [] then slice s i j @ block else slice s i j) s"
    by (simp add: replace_content_between_def assms(1) match_group_def Let_def)
  also have "\<dots> = Inr (take i s @ (slice s i j @ block) @ drop k s)"
    using assms by (auto simp: pattern_sub_plain)
  also have "\<dots> = Inr (take j s @ block @ drop k s)"
    using take_slice[OF ij, of s] by (metis append.assoc)
  finally show ?thesis .
qed

lemma replace_not_found:
  "pattern_search S E s = None \<Longrightarrow> replace_content_between s S E block = Inl (ValueError S)"
  by (simp add: replace_content_between_def)

lemma replace_found_not_ValueError:
  "pattern_search S E s = Some m \<Longrightarrow> replace_content_between s S E block \<noteq> Inl (ValueError p)"
  by (auto simp: replace_content_between_def pattern_sub_def Let_def split: option.splits prod.splits)

lemma heading_ends_lookahead:
  assumes "heading_ends S s i \<noteq> []"
  shows "lookahead S s i"
proof (cases S)
  case (Pattern b bs)
  from assms obtain r where r: "r \<in> set (heading_branches S)" and ne: "rx_ends r s i \<noteq> []"
    by (auto simp: heading_ends_def)
  show ?thesis
  proof (cases bs)
    case Nil
    with Pattern r ne have "rx_ends b s i \<noteq> []"
      by (auto split: if_splits)
    with Pattern show ?thesis by (auto simp: lookahead_def)
  next
    case (Cons c cs)
    with Pattern r have "r = Seq Bol b \<or> r \<in> set (butlast (c # cs)) \<or> r = Seq (last (c # cs)) heading_tail"
      by auto
    then consider "r = Seq Bol b" | "r \<in> set (butlast (c # cs))" | "r = Seq (last (c # cs)) heading_tail"
      by blast
    then show ?thesis
    proof cases
      case 1
      with ne have "rx_ends b s i \<noteq> []" by (auto split: if_splits)
      with Pattern show ?thesis by (auto simp: lookahead_def)
    next
      case 2
      then have "r \<in> set (c # cs)" by (rule in_set_butlastD)
      with ne Pattern Cons show ?thesis by (auto simp: lookahead_def)
    next
      case 3
      with ne have "rx_ends (last (c # cs)) s i \<noteq> []" by auto
      moreover have "last (c # cs) \<in> set (c # cs)" by (rule last_in_set) simp
      ultimately show ?thesis using Pattern Cons by (auto simp: lookahead_def)
    qed
  qed
qed

lemma no_start_no_match:
  assumes "\<not> matches_in S s"
  shows "pattern_search S E s = None"
proof -
  have "match_at S E s i = None" if "i \<in> set [0 ..< Suc (length s)]" for i
  proof -
    from assms that have "\<not> lookahead S s i" by (auto simp: matches_in_def)
    with heading_ends_lookahead have "heading_ends S s i = []" by blast
    then show ?thesis by (simp add: match_at_def)
  qed
  then show ?thesis
    unfolding pattern_search_def first_some_None_iff by blast
qed

subsection \<open>Searches on the example documents\<close>

lemma search_spec_doc: "pattern_search heading_A heading_B spec_doc = Some (0, 6, 10)"
  by code_simp
lemma search_spec_result: "pattern_search heading_A heading_B spec_result = Some (0, 6, 10)"
  by code_simp
lemma search_doc_no_end: "pattern_search pat_A pat_B doc_no_end = None"
  by code_simp
lemma search_doc_mid_line: "pattern_search pat_A pat_B doc_mid_line = None"
  by code_simp
lemma search_doc_backslash: "pattern_search pat_backslash pat_B doc_backslash = Some (0, 4, 8)"
  by code_simp
lemma search_doc_plain: "pattern_search COMMUNITY_HEADING_PATTERN PRO_HEADING_PATTERN doc_plain = None"
  by code_simp
lemma matches_doc_no_end: "matches_in pat_A doc_no_end"
  by code_simp
lemma matches_doc_mid_line: "matches_in pat_A doc_mid_line"
  by code_simp

text \<open>
  Claim C2, as stated, fails on a document in which the start pattern matches and the end
  pattern matches nowhere after it: the replacer raises.
\<close>

theorem replace_start_matches_counterexample:
  "matches_in pat_A doc_no_end \<and>
   replace_content_between doc_no_end pat_A pat_B (ustr ''y'') = Inl (ValueError pat_A)"
  by (simp add: matches_doc_no_end replace_not_found search_doc_no_end)

text \<open>
  Claim C2, amended.  When the search finds the section, with the heading from \<open>i\<close> to \<open>j\<close>
  and the content from \<open>j\<close> to \<open>k\<close>, and neither the heading nor the block holds a backslash,
  the replacer returns the document up to the end \<open>j\<close> of the heading unchanged, then the
  block, then the document from \<open>k\<close> on unchanged.  The heading is the first one in the
  document that the line-anchored start pattern, optional whitespace and a newline match with
  the end pattern matching somewhere after; \<open>k\<close> is the first position from \<open>j\<close> on where the
  end pattern matches.
\<close>

theorem replace_frame:
  assumes "pattern_search starting_rx ending_rx doc = Some (i, j, k)"
    and "92 \<notin> set (slice doc i j)" and "92 \<notin> set block"
  shows "i \<le> j \<and> j \<le> k \<and> k \<le> length doc \<and>
         j \<in> set (heading_ends starting_rx doc i) \<and>
         (\<forall>i' < i. match_at starting_rx ending_rx doc i' = None) \<and>
         lookahead ending_rx doc k \<and>
         (\<forall>k'. j \<le> k' \<and> k' < k \<longrightarrow> \<not> lookahead ending_rx doc k') \<and>
         replace_content_between doc starting_rx ending_rx block =
           Inr (take j doc @ block @ drop k doc)"
  using pattern_search_Some[OF assms(1)] replace_plain[OF assms] by simp

theorem replace_frame_witness:
  "pattern_search heading_A heading_B spec_doc = Some (0, 6, 10) \<and>
   92 \<notin> set (slice spec_doc 0 6) \<and> 92 \<notin> set spec_block \<and>
   replace_content_between spec_doc heading_A heading_B spec_block = Inr spec_result"
proof -
  have a: "92 \<notin> set (slice spec_doc 0 6)" and b: "92 \<notin> set spec_block"
    by (simp_all add: slice_def spec_doc_def spec_block_def ustr_def)
  have c: "take 6 spec_doc @ spec_block @ drop 10 spec_doc = spec_result"
    by (simp add: spec_doc_def spec_block_def spec_result_def ustr_def)
  from replace_frame[OF search_spec_doc a b] a b c search_spec_doc show ?thesis
    by simp
qed

subsection \<open>The matcher reads only what it needs\<close>



































subsection \<open>The pipeline\<close>

lemma generate_table_config: "generate_table table_config (Some rows) = Inr (pipeline_table rows)"
proof (cases "rows = []")
  case True
  then show ?thesis by (simp add: pipeline_table_def generate_table_def)
next
  case False
  then show ?thesis by (simp add: pipeline_table_def generate_table_pipeline)
qed

lemma main_first_fails:
  assumes "replace_content_between original COMMUNITY_HEADING_PATTERN PRO_HEADING_PATTERN
             (pipeline_table (transform (cat (ustr ''community'')))) = Inl e"
  shows "main cat original = ([Replace_community], Some e)"
  using assms by (simp add: main_def Let_def generate_table_config)

lemma main_no_write:
  assumes "main cat original = (evs, r)"
  shows "Write_text original \<notin> set evs \<and> (r \<noteq> None \<longrightarrow> (\<forall>d. Write_text d \<notin> set evs))"
proof -
  let ?c = "replace_content_between original COMMUNITY_HEADING_PATTERN PRO_HEADING_PATTERN
             (pipeline_table (transform (cat (ustr ''community''))))"
  show ?thesis
  proof (cases ?c)
    case (Inl e)
    from Inl have "main cat original = ([Replace_community], Some e)"
      by (rule main_first_fails[where cat = cat and original = original])
    with assms show ?thesis by auto
  next
    case (Inr d1)
    let ?p = "replace_content_between d1 PRO_HEADING_PATTERN API_COVERAGE_HEADING_PATTERN
                (pipeline_table (transform (cat (ustr ''pro''))))"
    show ?thesis
    proof (cases ?p)
      case (Inl e)
      with Inr have "main cat original = ([Replace_community, Replace_pro], Some e)"
        by (simp add: main_def Let_def generate_table_config)
      with assms show ?thesis by auto
    next
      case d2: (Inr d2)
      with Inr have "main cat original =
          (if d2 \<noteq> original then ([Replace_community, Replace_pro, Write_text d2], None)
           else ([Replace_community, Replace_pro], None))"
        by (simp add: main_def Let_def generate_table_config)
      with assms show ?thesis by (auto split: if_splits)
    qed
  qed
qed

lemma not_matches_doc_plain: "\<not> matches_in COMMUNITY_HEADING_PATTERN doc_plain"
  by code_simp

text \<open>
  Claim C4, as stated, fails on a document in which the start pattern matches, but not at
  the beginning of a line: the replacer raises although the start pattern has a match.
\<close>

theorem replace_error_counterexample:
  "matches_in pat_A doc_mid_line \<and>
   replace_content_between doc_mid_line pat_A pat_B (ustr ''y'') = Inl (ValueError pat_A)"
  by (simp add: matches_doc_mid_line replace_not_found search_doc_mid_line)

text \<open>
  Claim C4, amended.  The replacer raises its \<open>ValueError\<close> if and only if the composed
  section pattern has no match in the document, in particular whenever the start pattern
  matches nowhere, and the error carries the start pattern.  When the first replacement of the
  pipeline fails, the run is the first call to the replacer followed by the exception: the
  second replacement is not attempted and nothing is written.  No run writes a text equal to
  the original document, and a run that ends with an exception writes nothing.
\<close>

theorem section_not_found:
  "((\<exists>p. replace_content_between doc starting_rx ending_rx block = Inl (ValueError p)) \<longleftrightarrow>
      pattern_search starting_rx ending_rx doc = None) \<and>
   (pattern_search starting_rx ending_rx doc = None \<longrightarrow>
      replace_content_between doc starting_rx ending_rx block = Inl (ValueError starting_rx)) \<and>
   (\<not> matches_in starting_rx doc \<longrightarrow>
      replace_content_between doc starting_rx ending_rx block = Inl (ValueError starting_rx)) \<and>
   (replace_content_between original COMMUNITY_HEADING_PATTERN PRO_HEADING_PATTERN
        (pipeline_table (transform (cat (ustr ''community'')))) = Inl e \<longrightarrow>
      main cat original = ([Replace_community], Some e)) \<and>
   (main cat original = (evs, r) \<longrightarrow>
      Write_text original \<notin> set evs \<and> (r \<noteq> None \<longrightarrow> (\<forall>d. Write_text d \<notin> set evs)))"
proof -
  have a: "(\<exists>p. replace_content_between doc starting_rx ending_rx block = Inl (ValueError p)) \<longleftrightarrow>
      pattern_search starting_rx ending_rx doc = None"
  proof (cases "pattern_search starting_rx ending_rx doc")
    case None
    then show ?thesis by (simp add: replace_not_found)
  next
    case (Some m)
    then show ?thesis using replace_found_not_ValueError[OF Some] by simp
  qed
  have b: "pattern_search starting_rx ending_rx doc = None \<longrightarrow>
      replace_content_between doc starting_rx ending_rx block = Inl (ValueError starting_rx)"
    by (simp add: replace_not_found)
  have c: "\<not> matches_in starting_rx doc \<longrightarrow>
      replace_content_between doc starting_rx ending_rx block = Inl (ValueError starting_rx)"
    by (simp add: replace_not_found no_start_no_match)
  have d: "replace_content_between original COMMUNITY_HEADING_PATTERN PRO_HEADING_PATTERN
        (pipeline_table (transform (cat (ustr ''community'')))) = Inl e \<longrightarrow>
      main cat original = ([Replace_community], Some e)"
    by (intro impI, rule main_first_fails[where cat = cat and original = original])
  have e: "main cat original = (evs, r) \<longrightarrow>
      Write_text original \<notin> set evs \<and> (r \<noteq> None \<longrightarrow> (\<forall>d. Write_text d \<notin> set evs))"
    by (intro impI, rule main_no_write[where cat = cat])
  from a b c d e show ?thesis by blast
qed

theorem section_not_found_witness:
  "\<not> matches_in COMMUNITY_HEADING_PATTERN doc_plain \<and>
   pattern_search COMMUNITY_HEADING_PATTERN PRO_HEADING_PATTERN doc_plain = None \<and>
   replace_content_between doc_plain COMMUNITY_HEADING_PATTERN PRO_HEADING_PATTERN
     (pipeline_table (transform (Map.empty (ustr ''community'')))) =
     Inl (ValueError COMMUNITY_HEADING_PATTERN) \<and>
   main Map.empty doc_plain = ([Replace_community], Some (ValueError COMMUNITY_HEADING_PATTERN))"
proof -
  let ?b = "pipeline_table (transform (Map.empty (ustr ''community'')))"
  note t = section_not_found[of doc_plain COMMUNITY_HEADING_PATTERN PRO_HEADING_PATTERN ?b
      doc_plain Map.empty "ValueError COMMUNITY_HEADING_PATTERN"]
  from t not_matches_doc_plain
  have 1: "replace_content_between doc_plain COMMUNITY_HEADING_PATTERN PRO_HEADING_PATTERN ?b =
     Inl (ValueError COMMUNITY_HEADING_PATTERN)"
    by blast
  with t have 2: "main Map.empty doc_plain =
      ([Replace_community], Some (ValueError COMMUNITY_HEADING_PATTERN))"
    by blast
  from 1 2 not_matches_doc_plain search_doc_plain show ?thesis by blast
qed

subsection \<open>Empty blocks\<close>

lemma generate_table_empty: "generate_table self None = Inr [] \<and> generate_table self (Some []) = Inr []"
  by (simp add: generate_table_def)

lemma replace_empty_block:
  assumes "pattern_search S E s = Some (i, j, k)" and "92 \<notin> set (slice s i j)"
  shows "replace_content_between s S E [] = Inr (take j s @ drop k s)"
  using replace_plain[OF assms, of "[]"] by simp

lemma slice_same [simp]: "slice s i i = []"
  by (simp add: slice_def)

lemma slice_one: "i < length s \<Longrightarrow> slice s i (Suc i) = [s ! i]"
  by (simp add: slice_def take_Suc_conv_app_nth)

lemma slice_append: "i \<le> m \<Longrightarrow> m \<le> j \<Longrightarrow> slice s i j = slice s i m @ slice s m j"
proof -
  assume a: "i \<le> m" "m \<le> j"
  then have "j - i = (m - i) + (j - m)" by simp
  then have "take (j - i) (drop i s) = take (m - i) (drop i s) @ take (j - m) (drop (m - i) (drop i s))"
    by (simp only: take_add)
  with a show ?thesis by (simp add: slice_def)
qed

lemma take_run_avoids:
  assumes "n \<le> length (takeWhile p xs)" and "\<not> p c"
  shows "c \<notin> set (take n xs)"
proof -
  have "take n xs = take n (takeWhile p xs @ dropWhile p xs)" by simp
  also have "\<dots> = take n (takeWhile p xs)" using assms(1) by (simp only: take_append) simp
  finally have "set (take n xs) \<subseteq> set (takeWhile p xs)" by (simp add: set_take_subset)
  moreover have "c \<notin> set (takeWhile p xs)" using assms(2) by (auto dest: set_takeWhileD)
  ultimately show ?thesis by blast
qed

lemma star_avoids:
  assumes "j \<in> set [i ..< Suc (i + length (takeWhile p (drop i s)))]" and "\<not> p c"
  shows "c \<notin> set (slice s i j)"
proof -
  from assms(1) have "i \<le> j" "j < Suc (i + length (takeWhile p (drop i s)))"
    by (simp_all del: upt_Suc)
  then have "j - i \<le> length (takeWhile p (drop i s))" by linarith
  from take_run_avoids[OF this assms(2)] show ?thesis by (simp add: slice_def)
qed

lemma rx_avoids_ends:
  "rx_avoids c r \<Longrightarrow> i \<le> length s \<Longrightarrow> j \<in> set (rx_ends r s i) \<Longrightarrow> c \<notin> set (slice s i j)"
proof (induction r arbitrary: i j)
  case (Cls p)
  from Cls.prems(3) have j: "j = Suc i" and i: "i < length s" and p: "p (s ! i)"
    by (simp_all split: if_splits)
  from Cls.prems(1) p have "s ! i \<noteq> c" by auto
  with j i show ?case by (simp add: slice_one)
next
  case Eps
  then show ?case by simp
next
  case Bol
  then show ?case by (simp split: if_splits)
next
  case Eol
  then show ?case by (simp split: if_splits)
next
  case Eos
  then show ?case by (simp split: if_splits)
next
  case (Seq a b)
  from Seq.prems(3) obtain m where m: "m \<in> set (rx_ends a s i)" and j: "j \<in> set (rx_ends b s m)"
    by auto
  from rx_ends_bounds[OF Seq.prems(2) m] have im: "i \<le> m" and ml: "m \<le> length s" by simp_all
  from rx_ends_bounds[OF ml j] have mj: "m \<le> j" by simp
  from Seq.prems(1) have a: "rx_avoids c a" and b: "rx_avoids c b" by simp_all
  from Seq.IH(1)[OF a Seq.prems(2) m] Seq.IH(2)[OF b ml j] slice_append[OF im mj, of s]
  show ?case by simp
next
  case (Alt a b)
  from Alt.prems(3) have "j \<in> set (rx_ends a s i) \<or> j \<in> set (rx_ends b s i)" by simp
  moreover from Alt.prems(1) have "rx_avoids c a" "rx_avoids c b" by simp_all
  ultimately show ?case using Alt.IH(1)[OF _ Alt.prems(2)] Alt.IH(2)[OF _ Alt.prems(2)] by blast
next
  case (Star p)
  from Star(3) have "j \<in> set [i ..< Suc (i + length (takeWhile p (drop i s)))]"
    by (simp del: upt_Suc)
  moreover from Star(1) have "\<not> p c" by simp
  ultimately show ?case by (rule star_avoids)
next
  case (LazyStar p)
  from LazyStar(3) have "j \<in> set [i ..< Suc (i + length (takeWhile p (drop i s)))]"
    by (simp del: upt_Suc)
  moreover from LazyStar(1) have "\<not> p c" by simp
  ultimately show ?case by (rule star_avoids)
next
  case (Look a)
  from Look.prems(3) show ?case by (simp split: if_splits)
next
  case (NLook a)
  from NLook.prems(3) show ?case by (simp split: if_splits)
qed

lemma heading_tail_avoids: "\<not> is_space c \<Longrightarrow> c \<noteq> 10 \<Longrightarrow> rx_avoids c heading_tail"
  by (simp add: heading_tail_def)

lemma heading_avoids:
  assumes "\<forall>b \<in> set (branches S). rx_avoids c b" and "\<not> is_space c" and "c \<noteq> 10"
    and "i \<le> length s" and "j \<in> set (heading_ends S s i)"
  shows "c \<notin> set (slice s i j)"
proof -
  from assms(5) obtain r where r: "r \<in> set (heading_branches S)" and j: "j \<in> set (rx_ends r s i)"
    by (auto simp: heading_ends_def)
  note t = heading_tail_avoids[OF assms(2,3)]
  have "rx_avoids c r"
  proof (cases S)
    case (Pattern b bs)
    show ?thesis
    proof (cases bs)
      case Nil
      with Pattern r assms(1) t show ?thesis by simp
    next
      case (Cons x xs)
      have l: "last (x # xs) \<in> set (x # xs)" by (rule last_in_set) simp
      from Cons Pattern r have "r = Seq Bol b \<or> r \<in> set (butlast (x # xs)) \<or>
          r = Seq (last (x # xs)) heading_tail" by auto
      moreover have "rx_avoids c b" using Pattern assms(1) by simp
      moreover have "rx_avoids c y" if "y \<in> set (x # xs)" for y
        using that Pattern Cons assms(1) by auto
      ultimately show ?thesis using t l in_set_butlastD[of r "x # xs"] by auto
    qed
  qed
  from rx_avoids_ends[OF this assms(4) j] show ?thesis .
qed

lemma pipeline_patterns_avoid_backslash:
  "\<forall>b \<in> set (branches COMMUNITY_HEADING_PATTERN). rx_avoids 92 b"
  "\<forall>b \<in> set (branches PRO_HEADING_PATTERN). rx_avoids 92 b"
  by (simp_all add: COMMUNITY_HEADING_PATTERN_def PRO_HEADING_PATTERN_def lit_def is_space_def)

lemma search_heading_avoids:
  assumes "pattern_search S E s = Some (i, j, k)"
    and "\<forall>b \<in> set (branches S). rx_avoids 92 b"
  shows "92 \<notin> set (slice s i j)"
proof -
  from pattern_search_Some[OF assms(1)] have "i \<le> length s" "j \<in> set (heading_ends S s i)"
    by simp_all
  with heading_avoids[OF assms(2), where s = s and i = i and j = j] show ?thesis by (simp add: is_space_def)
qed

lemma pipeline_empty_block:
  assumes "S = COMMUNITY_HEADING_PATTERN \<or> S = PRO_HEADING_PATTERN"
    and "pattern_search S E s = Some (i, j, k)"
  shows "replace_content_between s S E [] = Inr (take j s @ drop k s)"
proof -
  from assms(1) pipeline_patterns_avoid_backslash have "\<forall>b \<in> set (branches S). rx_avoids 92 b"
    by blast
  from replace_empty_block[OF assms(2) search_heading_avoids[OF assms(2) this]] show ?thesis .
qed

lemma parse_backslash_heading:
  "parse_template [65, 92, 110, 10] = Some [Literal 65, Literal 10, Literal 10]"
  by (simp add: parse_template_def escape_char_def is_digit_def)

text \<open>
  Claim C6.  \<open>generate_table\<close> returns the empty string for absent and for empty rows
  (\<open>generate_table_empty\<close>), and replacing with the empty block leaves the heading and the
  end boundary when the heading holds no backslash (\<open>replace_empty_block\<close>), as is always
  the case for the two heading patterns of the pipeline (\<open>pipeline_empty_block\<close>).  The heading is
  put back through \<open>pattern.sub\<close>, which reads it as a replacement template: for the start
  pattern \<open>A\\n\<close> and the document \<open>A\n\<close>, newline, \<open>old\<close>, newline, \<open>B\<close>, the heading
  line \<open>A\n\<close> (with a backslash) comes back as \<open>A\<close> and a newline.
\<close>

theorem empty_block_rewrites_heading:
  "pattern_search pat_backslash pat_B doc_backslash = Some (0, 4, 8) \<and>
   take 4 doc_backslash @ drop 8 doc_backslash = [65, 92, 110, 10, 66] \<and>
   replace_content_between doc_backslash pat_backslash pat_B [] = Inr [65, 10, 10, 66]"
proof -
  have h: "slice doc_backslash 0 4 = [65, 92, 110, 10]"
    by (simp add: slice_def doc_backslash_def)
  have "replace_content_between doc_backslash pat_backslash pat_B [] =
        pattern_sub pat_backslash pat_B [65, 92, 110, 10] doc_backslash"
    by (simp add: replace_content_between_def search_doc_backslash match_group_def h)
  also have "\<dots> = Inr (take 0 doc_backslash @ [65, 10, 10] @ drop 8 doc_backslash)"
    by (simp add: pattern_sub_def parse_backslash_heading search_doc_backslash)
  also have "\<dots> = Inr [65, 10, 10, 66]"
    by (simp add: doc_backslash_def ustr_def)
  finally have r: "replace_content_between doc_backslash pat_backslash pat_B [] = Inr [65, 10, 10, 66]" .
  have t: "take 4 doc_backslash @ drop 8 doc_backslash = [65, 92, 110, 10, 66]"
    by (simp add: doc_backslash_def ustr_def)
  from r t search_doc_backslash show ?thesis by simp
qed

end
